theory Spec2Isabelle
  imports Main "HOL-Library.Sublist" "HOL-Library.Char_ord" "HOL-Library.List_Lexorder"
begin

section \<open>Gorror: error-type generator (gorror.go)\<close>

text \<open>
  A Go \<^verbatim>\<open>string\<close> is a sequence of bytes: it is modelled by \<^typ>\<open>string\<close>, one
  \<^typ>\<open>char\<close> per byte. A \<^verbatim>\<open>rune\<close> is a code point, modelled by a natural number.
  Every \<^verbatim>\<open>log.Fatal\<close> and every run-time panic of the source is a value of
  \<open>failure\<close>, returned on the left of a sum.
\<close>

subsection \<open>Failures\<close>

datatype failure =
    PanicIndexOutOfRange          \<comment> \<open>\<^verbatim>\<open>runes[0]\<close> on an empty slice\<close>
  | FatalParseExpr string         \<comment> \<open>\<^verbatim>\<open>log.Fatal(err)\<close> after \<^verbatim>\<open>parser.ParseExpr\<close>\<close>
  | FatalNoRoot string            \<comment> \<open>\<^verbatim>\<open>log.Fatalf("Could not find root node of expression %q", fExpr)\<close>\<close>
  | FatalEmptyFormat string       \<comment> \<open>\<^verbatim>\<open>log.Fatalf("format produced empty output\n%s\n", g.buf.String())\<close>\<close>

subsection \<open>Runes and UTF-8: the conversions \<^verbatim>\<open>[]rune(s)\<close> and \<^verbatim>\<open>string(runes)\<close>\<close>

type_synonym rune = nat

definition RuneError :: rune where
  "RuneError = 0xFFFD"

definition byte :: "char \<Rightarrow> nat" where
  "byte c = of_char c"

definition locb_hicb :: "char \<Rightarrow> bool" where
  "locb_hicb c = (0x80 \<le> byte c \<and> byte c \<le> 0xBF)"

text \<open>
  \<^verbatim>\<open>decoderune\<close> of the Go runtime, which the conversion \<^verbatim>\<open>[]rune(s)\<close> runs at every
  position: the rune at the head of a non-empty string and the number of bytes it takes.
  An invalid or incomplete sequence is \<open>RuneError\<close> of width 1. The three cases of
  its \<^verbatim>\<open>switch\<close> (two, three and four bytes) are \<open>decode2\<close>, \<open>decode3\<close>, \<open>decode4\<close>;
  \<open>None\<close> falls through to the final \<^verbatim>\<open>return runeError, k + 1\<close>.
\<close>

definition decode2 :: "nat \<Rightarrow> string \<Rightarrow> (rune \<times> nat) option" where
  "decode2 b0 s =
     (case s of
        c1 # _ \<Rightarrow>
          if locb_hicb c1 then
            (let r = (b0 mod 32) * 64 + byte c1 mod 64
             in if 0x7F < r then Some (r, 2) else None)
          else None
      | _ \<Rightarrow> None)"

definition decode3 :: "nat \<Rightarrow> string \<Rightarrow> (rune \<times> nat) option" where
  "decode3 b0 s =
     (case s of
        c1 # c2 # _ \<Rightarrow>
          if locb_hicb c1 \<and> locb_hicb c2 then
            (let r = (b0 mod 16) * 4096 + (byte c1 mod 64) * 64 + byte c2 mod 64
             in if 0x7FF < r \<and> \<not> (0xD800 \<le> r \<and> r \<le> 0xDFFF) then Some (r, 3) else None)
          else None
      | _ \<Rightarrow> None)"

definition decode4 :: "nat \<Rightarrow> string \<Rightarrow> (rune \<times> nat) option" where
  "decode4 b0 s =
     (case s of
        c1 # c2 # c3 # _ \<Rightarrow>
          if locb_hicb c1 \<and> locb_hicb c2 \<and> locb_hicb c3 then
            (let r = (b0 mod 8) * 262144 + (byte c1 mod 64) * 4096
                     + (byte c2 mod 64) * 64 + byte c3 mod 64
             in if 0xFFFF < r \<and> r \<le> 0x10FFFF then Some (r, 4) else None)
          else None
      | _ \<Rightarrow> None)"

definition decodeMulti :: "nat \<Rightarrow> string \<Rightarrow> (rune \<times> nat) option" where
  "decodeMulti b0 s =
     (if 0xC0 \<le> b0 \<and> b0 < 0xE0 then decode2 b0 s
      else if 0xE0 \<le> b0 \<and> b0 < 0xF0 then decode3 b0 s
      else if 0xF0 \<le> b0 \<and> b0 < 0xF8 then decode4 b0 s
      else None)"

fun decoderune :: "string \<Rightarrow> rune \<times> nat" where
  "decoderune [] = (RuneError, 1)"
| "decoderune (c0 # s) =
     (if byte c0 < 0x80 then (byte c0, 1)
      else case decodeMulti (byte c0) s of Some rw \<Rightarrow> rw | None \<Rightarrow> (RuneError, 1))"

fun toRunes :: "string \<Rightarrow> rune list" where
  "toRunes [] = []"
| "toRunes (c # s) = (let (r, w) = decoderune (c # s) in r # toRunes (drop (w - 1) s))"

text \<open>
  \<^verbatim>\<open>utf8.AppendRune\<close>, behind \<^verbatim>\<open>strings.Builder.WriteRune\<close> and the conversion
  \<^verbatim>\<open>string(runes)\<close>: surrogates and values above U+10FFFF are written as U+FFFD.
\<close>

definition encodeRune :: "rune \<Rightarrow> string" where
  "encodeRune r =
     (if r < 0x80 then [char_of r]
      else if r < 0x800 then [char_of (0xC0 + r div 64), char_of (0x80 + r mod 64)]
      else if (0xD800 \<le> r \<and> r \<le> 0xDFFF) \<or> 0x10FFFF < r then
        [char_of (0xEF::nat), char_of (0xBF::nat), char_of (0xBD::nat)]
      else if r < 0x10000 then
        [char_of (0xE0 + r div 4096), char_of (0x80 + (r div 64) mod 64), char_of (0x80 + r mod 64)]
      else
        [char_of (0xF0 + r div 262144), char_of (0x80 + (r div 4096) mod 64),
         char_of (0x80 + (r div 64) mod 64), char_of (0x80 + r mod 64)])"

definition fromRunes :: "rune list \<Rightarrow> string" where
  "fromRunes rs = concat (map encodeRune rs)"

subsection \<open>The parts of the Go library the generator calls\<close>

text \<open>
  The Unicode tables, the expression parser, the string quoter and the source formatter
  belong to the Go distribution. They are parameters of the model: every theorem below
  holds for whatever they return.
\<close>

datatype expr =
    Ident string                  \<comment> \<open>\<^verbatim>\<open>*ast.Ident\<close>\<close>
  | SelectorExpr expr string      \<comment> \<open>\<^verbatim>\<open>*ast.SelectorExpr\<close>: \<open>X.Sel\<close>\<close>
  | IndexExpr expr expr           \<comment> \<open>\<^verbatim>\<open>*ast.IndexExpr\<close>: \<open>X[Index]\<close>\<close>
  | BasicLit string               \<comment> \<open>\<^verbatim>\<open>*ast.BasicLit\<close>\<close>
  | OtherExpr string              \<comment> \<open>any other node of \<^verbatim>\<open>go/ast\<close>\<close>

record golib =
  To_UpperCase :: "rune \<Rightarrow> rune"            \<comment> \<open>\<^verbatim>\<open>unicode.To(unicode.UpperCase, r)\<close>\<close>
  To_LowerCase :: "rune \<Rightarrow> rune"            \<comment> \<open>\<^verbatim>\<open>unicode.To(unicode.LowerCase, r)\<close>\<close>
  To_TitleCase :: "rune \<Rightarrow> rune"            \<comment> \<open>\<^verbatim>\<open>unicode.To(unicode.TitleCase, r)\<close>\<close>
  IsLetter :: "rune \<Rightarrow> bool"                \<comment> \<open>\<^verbatim>\<open>unicode.IsLetter\<close>\<close>
  IsDigit :: "rune \<Rightarrow> bool"                 \<comment> \<open>\<^verbatim>\<open>unicode.IsDigit\<close>\<close>
  IsSpace :: "rune \<Rightarrow> bool"                 \<comment> \<open>\<^verbatim>\<open>unicode.IsSpace\<close>\<close>
  ParseExpr :: "string \<Rightarrow> string + expr"    \<comment> \<open>\<^verbatim>\<open>parser.ParseExpr\<close>; \<open>Inl\<close> is the error's text\<close>
  Quote :: "string \<Rightarrow> string"                \<comment> \<open>\<^verbatim>\<open>strconv.Quote\<close>, the verb \<^verbatim>\<open>%q\<close>\<close>
  format_Source :: "string \<Rightarrow> string \<times> string option"
      \<comment> \<open>\<^verbatim>\<open>format.Source\<close>: the returned bytes and the error, if any\<close>

text \<open>\<^verbatim>\<open>unicode.ToUpper\<close>, \<^verbatim>\<open>unicode.ToLower\<close>, \<^verbatim>\<open>unicode.ToTitle\<close>: ASCII is decided in place.\<close>

definition ToUpper :: "'a golib_scheme \<Rightarrow> rune \<Rightarrow> rune" where
  "ToUpper L r =
     (if r \<le> 0x7F then (if 97 \<le> r \<and> r \<le> 122 then r - 32 else r) else To_UpperCase L r)"

definition ToLower :: "'a golib_scheme \<Rightarrow> rune \<Rightarrow> rune" where
  "ToLower L r =
     (if r \<le> 0x7F then (if 65 \<le> r \<and> r \<le> 90 then r + 32 else r) else To_LowerCase L r)"

definition ToTitle :: "'a golib_scheme \<Rightarrow> rune \<Rightarrow> rune" where
  "ToTitle L r =
     (if r \<le> 0x7F then (if 97 \<le> r \<and> r \<le> 122 then r - 32 else r) else To_TitleCase L r)"

text \<open>\<^verbatim>\<open>strings.isSeparator\<close> and \<^verbatim>\<open>strings.Title\<close> (a \<^verbatim>\<open>strings.Map\<close> over the runes).\<close>

definition isSeparator :: "'a golib_scheme \<Rightarrow> rune \<Rightarrow> bool" where
  "isSeparator L r =
     (if r \<le> 0x7F then
        \<not> ((48 \<le> r \<and> r \<le> 57) \<or> (97 \<le> r \<and> r \<le> 122) \<or> (65 \<le> r \<and> r \<le> 90) \<or> r = 95)
      else if IsLetter L r \<or> IsDigit L r then False
      else IsSpace L r)"

fun titleMap :: "'a golib_scheme \<Rightarrow> rune \<Rightarrow> rune list \<Rightarrow> rune list" where
  "titleMap L prev [] = []"
| "titleMap L prev (r # rs) = (if isSeparator L prev then ToTitle L r else r) # titleMap L r rs"

definition Title :: "'a golib_scheme \<Rightarrow> string \<Rightarrow> string" where
  "Title L s = fromRunes (titleMap L 32 (toRunes s))"

text \<open>\<^verbatim>\<open>strings.HasPrefix\<close>, \<^verbatim>\<open>TrimPrefix\<close>, \<^verbatim>\<open>HasSuffix\<close>, \<^verbatim>\<open>TrimSuffix\<close>.\<close>

definition HasPrefix :: "string \<Rightarrow> string \<Rightarrow> bool" where
  "HasPrefix s p = (length s \<ge> length p \<and> take (length p) s = p)"

definition TrimPrefix :: "string \<Rightarrow> string \<Rightarrow> string" where
  "TrimPrefix s p = (if HasPrefix s p then drop (length p) s else s)"

definition HasSuffix :: "string \<Rightarrow> string \<Rightarrow> bool" where
  "HasSuffix s x = (length s \<ge> length x \<and> drop (length s - length x) s = x)"

definition TrimSuffix :: "string \<Rightarrow> string \<Rightarrow> string" where
  "TrimSuffix s x = (if HasSuffix s x then take (length s - length x) s else s)"

subsection \<open>The generator's data\<close>

record ErrorSpec =
  name :: string
  template :: string

record Generator =
  typeName :: string
  compatIs :: bool
  makePub :: bool
  specSuffix :: string
  imports_G :: "string list"
  buf :: string
  specs :: "ErrorSpec list"
  pkgName :: string

subsection \<open>Naming: \<^verbatim>\<open>Generator.structName\<close> and the constructor's name\<close>

definition structName :: "'a golib_scheme \<Rightarrow> Generator \<Rightarrow> string \<Rightarrow> failure + string" where
  "structName L g specName =
     (case toRunes specName of
        [] \<Rightarrow> Inl PanicIndexOutOfRange
      | r0 # runes1 \<Rightarrow>
          (let b = encodeRune (if makePub g then ToUpper L r0 else ToLower L r0);
               rest = fromRunes runes1;
               rest = (if length (specSuffix g) > 0 then TrimSuffix rest (specSuffix g) else rest)
           in Inr (b @ rest)))"

definition constPrefix :: "Generator \<Rightarrow> string" where
  "constPrefix g = (if makePub g then ''New'' else ''new'')"

definition constructorName :: "'a golib_scheme \<Rightarrow> Generator \<Rightarrow> string \<Rightarrow> string" where
  "constructorName L g sName = constPrefix g @ Title L sName"

subsection \<open>The placeholder pattern \<^verbatim>\<open>tmplRE\<close>\<close>

text \<open>
  The pattern of the source is
  \<^verbatim>\<open>{{([A-Za-z0-9_\.\[\]]+) (\*?[A-Za-z0-9_\.]+) (%[A-Za-z0-9#\.\+]+)}}\<close>.
  It is written with five constructs of Go's \<^verbatim>\<open>regexp\<close> syntax: literal text, a character
  class repeated one or more times (greedy), an optional item (greedy), concatenation
  and a capturing group. A character class is a list of inclusive ranges.
\<close>

type_synonym cclass = "(char \<times> char) list"

definition inClass :: "cclass \<Rightarrow> char \<Rightarrow> bool" where
  "inClass cl c = list_ex (\<lambda>(lo, hi). lo \<le> c \<and> c \<le> hi) cl"

datatype regexp =
    Lit string
  | Opt regexp
  | Plus cclass
  | Cat regexp regexp
  | Group regexp

text \<open>
  Go's \<^verbatim>\<open>regexp\<close> returns, at a given start, the match a backtracking search finds first
  (leftmost-first). \<open>backtrack\<close> lists every way to match at the head of the input, in
  the order a backtracking search tries them: a state is the unread input and the
  captures closed so far; \<^verbatim>\<open>+\<close> tries the longest run first, \<^verbatim>\<open>?\<close> tries the item first.
\<close>

type_synonym mstate = "string \<times> string list"

fun backtrack :: "regexp \<Rightarrow> mstate \<Rightarrow> mstate list" where
  "backtrack (Lit l) (s, caps) = (if HasPrefix s l then [(drop (length l) s, caps)] else [])"
| "backtrack (Opt r) st = backtrack r st @ [st]"
| "backtrack (Plus cl) (s, caps) =
     map (\<lambda>n. (drop n s, caps)) (rev [1 ..< Suc (length (takeWhile (inClass cl) s))])"
| "backtrack (Cat r1 r2) st = concat (map (backtrack r2) (backtrack r1 st))"
| "backtrack (Group r) (s, caps) =
     map (\<lambda>(s', caps'). (s', caps' @ [take (length s - length s') s])) (backtrack r (s, caps))"

definition matchAt :: "regexp \<Rightarrow> string \<Rightarrow> (string list \<times> string) option" where
  "matchAt re s =
     (case backtrack re (s, []) of
        [] \<Rightarrow> None
      | (s', caps) # _ \<Rightarrow> Some (take (length s - length s') s # caps, s'))"

text \<open>
  \<^verbatim>\<open>FindAllStringSubmatch(s, -1)\<close>: the successive non-overlapping matches, each with its
  submatches; the search resumes where the previous match ended. An empty match (which
  \<open>tmplRE\<close> does not have) moves one byte forward.
\<close>

fun FindAllStringSubmatch :: "regexp \<Rightarrow> string \<Rightarrow> string list list" where
  "FindAllStringSubmatch re [] = (case matchAt re [] of None \<Rightarrow> [] | Some (m, _) \<Rightarrow> [m])"
| "FindAllStringSubmatch re (c # s) =
     (case matchAt re (c # s) of
        None \<Rightarrow> FindAllStringSubmatch re s
      | Some (m, rest) \<Rightarrow>
          if length rest < length (c # s) then m # FindAllStringSubmatch re rest
          else m # FindAllStringSubmatch re s)"

definition accessorClass :: cclass where
  "accessorClass = [(CHR ''A'', CHR ''Z''), (CHR ''a'', CHR ''z''), (CHR ''0'', CHR ''9''),
     (CHR ''_'', CHR ''_''), (CHR ''.'', CHR ''.''), (CHR ''['', CHR ''[''), (CHR '']'', CHR '']'')]"

definition typeClass :: cclass where
  "typeClass = [(CHR ''A'', CHR ''Z''), (CHR ''a'', CHR ''z''), (CHR ''0'', CHR ''9''),
     (CHR ''_'', CHR ''_''), (CHR ''.'', CHR ''.'')]"

definition verbClass :: cclass where
  "verbClass = [(CHR ''A'', CHR ''Z''), (CHR ''a'', CHR ''z''), (CHR ''0'', CHR ''9''),
     (CHR ''#'', CHR ''#''), (CHR ''.'', CHR ''.''), (CHR ''+'', CHR ''+'')]"

definition tmplRE :: regexp where
  "tmplRE =
     Cat (Lit ''{{'')
    (Cat (Group (Plus accessorClass))
    (Cat (Lit '' '')
    (Cat (Group (Cat (Opt (Lit ''*'')) (Plus typeClass)))
    (Cat (Lit '' '')
    (Cat (Group (Cat (Lit ''%'') (Plus verbClass)))
         (Lit ''}}''))))))"

subsection \<open>The pattern read from left to right\<close>

text \<open>
  In \<open>tmplRE\<close> every repeated class is followed by a character outside the class, so a
  match is found without backtracking: strip the literal text, take the longest run of
  each class. \<open>scanPlaceholder\<close> does exactly that; \<open>matchAt_scanPlaceholder\<close> below proves
  that it returns what the backtracking search returns.
\<close>

definition stripLit :: "string \<Rightarrow> string \<Rightarrow> string option" where
  "stripLit l s = (if HasPrefix s l then Some (drop (length l) s) else None)"

definition scanRun :: "cclass \<Rightarrow> string \<Rightarrow> (string \<times> string) option" where
  "scanRun cl s =
     (if takeWhile (inClass cl) s = [] then None
      else Some (takeWhile (inClass cl) s, dropWhile (inClass cl) s))"

definition scanType :: "string \<Rightarrow> (string \<times> string) option" where
  "scanType s =
     (case stripLit ''*'' s of
        None \<Rightarrow> scanRun typeClass s
      | Some s' \<Rightarrow> (case scanRun typeClass s' of None \<Rightarrow> None | Some (u, r) \<Rightarrow> Some (''*'' @ u, r)))"

definition scanPlaceholder :: "string \<Rightarrow> (string list \<times> string) option" where
  "scanPlaceholder s =
     (case stripLit ''{{'' s of None \<Rightarrow> None | Some s1 \<Rightarrow>
      case scanRun accessorClass s1 of None \<Rightarrow> None | Some (a, s2) \<Rightarrow>
      case stripLit '' '' s2 of None \<Rightarrow> None | Some s3 \<Rightarrow>
      case scanType s3 of None \<Rightarrow> None | Some (t, s4) \<Rightarrow>
      case stripLit '' '' s4 of None \<Rightarrow> None | Some s5 \<Rightarrow>
      case stripLit ''%'' s5 of None \<Rightarrow> None | Some s6 \<Rightarrow>
      case scanRun verbClass s6 of None \<Rightarrow> None | Some (v, s7) \<Rightarrow>
      case stripLit ''}}'' s7 of None \<Rightarrow> None | Some rest \<Rightarrow>
        Some ([take (length s - length rest) s, a, t, ''%'' @ v], rest))"

subsection \<open>The placeholder grammar as the specification words it\<close>

text \<open>
  Section 6 of the specification: \<^verbatim>\<open>{{accessor type verb}}\<close> where \<^verbatim>\<open>accessor\<close> matches
  \<^verbatim>\<open>ident('.'ident | '['digits']')*\<close>, \<^verbatim>\<open>type\<close> matches \<^verbatim>\<open>'*'?ident('.'ident)?\<close> and
  \<^verbatim>\<open>verb\<close> matches \<^verbatim>\<open>'%'[A-Za-z0-9#.+]+\<close>. An identifier is a letter or underscore
  followed by letters, digits and underscores.
\<close>

definition ident_start :: "char \<Rightarrow> bool" where
  "ident_start c = ((CHR ''A'' \<le> c \<and> c \<le> CHR ''Z'') \<or> (CHR ''a'' \<le> c \<and> c \<le> CHR ''z'') \<or> c = CHR ''_'')"

definition ascii_digit :: "char \<Rightarrow> bool" where
  "ascii_digit c = (CHR ''0'' \<le> c \<and> c \<le> CHR ''9'')"

definition spec_ident :: "string \<Rightarrow> bool" where
  "spec_ident s =
     (case s of [] \<Rightarrow> False | c # cs \<Rightarrow> ident_start c \<and> list_all (\<lambda>d. ident_start d \<or> ascii_digit d) cs)"

definition spec_digits :: "string \<Rightarrow> bool" where
  "spec_digits s = (s \<noteq> [] \<and> list_all ascii_digit s)"

inductive spec_accessor :: "string \<Rightarrow> bool" where
  acc_ident: "spec_ident i \<Longrightarrow> spec_accessor i"
| acc_field: "spec_accessor a \<Longrightarrow> spec_ident i \<Longrightarrow> spec_accessor (a @ ''.'' @ i)"
| acc_index: "spec_accessor a \<Longrightarrow> spec_digits d \<Longrightarrow> spec_accessor (a @ ''['' @ d @ '']'')"

inductive spec_type :: "string \<Rightarrow> bool" where
  typ_plain: "spec_ident i \<Longrightarrow> spec_type i"
| typ_qualified: "spec_ident p \<Longrightarrow> spec_ident i \<Longrightarrow> spec_type (p @ ''.'' @ i)"
| typ_pointer: "spec_ident i \<Longrightarrow> spec_type (''*'' @ i)"
| typ_pointer_qualified: "spec_ident p \<Longrightarrow> spec_ident i \<Longrightarrow> spec_type (''*'' @ p @ ''.'' @ i)"

definition spec_verb :: "string \<Rightarrow> bool" where
  "spec_verb s =
     (case s of
        [] \<Rightarrow> False
      | c # cs \<Rightarrow> c = CHR ''%'' \<and> cs \<noteq> [] \<and> list_all (inClass verbClass) cs)"

inductive spec_placeholder :: "string \<Rightarrow> string \<Rightarrow> string \<Rightarrow> string \<Rightarrow> bool" where
  placeholder: "spec_accessor a \<Longrightarrow> spec_type t \<Longrightarrow> spec_verb v \<Longrightarrow>
     spec_placeholder (''{{'' @ a @ '' '' @ t @ '' '' @ v @ ''}}'') a t v"

text \<open>The shape the pattern itself describes: three runs over the three classes.\<close>

definition class_run :: "cclass \<Rightarrow> string \<Rightarrow> bool" where
  "class_run cl s = (s \<noteq> [] \<and> list_all (inClass cl) s)"

definition pattern_type :: "string \<Rightarrow> bool" where
  "pattern_type t = (class_run typeClass t \<or> (\<exists>u. t = ''*'' @ u \<and> class_run typeClass u))"

definition pattern_verb :: "string \<Rightarrow> bool" where
  "pattern_verb v = (\<exists>u. v = ''%'' @ u \<and> class_run verbClass u)"

subsection \<open>Parsed templates: \<^verbatim>\<open>parseTemplate\<close> and \<^verbatim>\<open>findExprRoot\<close>\<close>

datatype WrapMode = OptWrap | NoWrap | MustWrap

record Field =
  name_F :: string     \<comment> \<open>name of the field\<close>
  typ_F :: string        \<comment> \<open>type of the field\<close>
  fmt_F :: string      \<comment> \<open>format verb for the field\<close>
  val :: string        \<comment> \<open>accessor to use when formatting\<close>

record ParsedTemplate =
  wrap :: WrapMode
  fields_T :: "Field list"
  fmt :: string

text \<open>The loop of \<^verbatim>\<open>findExprRoot\<close> descends through \<open>X\<close>; it returns the identifier's name.\<close>

fun findExprRoot :: "expr \<Rightarrow> string option" where
  "findExprRoot (SelectorExpr x sel) = findExprRoot x"
| "findExprRoot (IndexExpr x i) = findExprRoot x"
| "findExprRoot (Ident n) = Some n"
| "findExprRoot (BasicLit v) = None"
| "findExprRoot (OtherExpr k) = None"

text \<open>The \<^verbatim>\<open>switch\<close> at the head of \<^verbatim>\<open>parseTemplate\<close>: the wrap mode and the remaining template.\<close>

definition wrapPrefix :: "string \<Rightarrow> WrapMode \<times> string" where
  "wrapPrefix tmpl =
     (if HasPrefix tmpl ''wrap:'' then (MustWrap, TrimPrefix tmpl ''wrap:'')
      else if HasPrefix tmpl ''nowrap:'' then (NoWrap, TrimPrefix tmpl ''nowrap:'')
      else (OptWrap, tmpl))"

text \<open>\<^verbatim>\<open>strings.Replace(s, old, new, 1)\<close>: the first occurrence of \<open>old\<close>, if any, becomes \<open>new\<close>.\<close>

fun Replace1 :: "string \<Rightarrow> string \<Rightarrow> string \<Rightarrow> string" where
  "Replace1 [] old new = (if old = [] then new else [])"
| "Replace1 (c # s) old new =
     (if HasPrefix (c # s) old then new @ drop (length old) (c # s)
      else c # Replace1 s old new)"

text \<open>
  The \<^verbatim>\<open>for\<close> loop of \<^verbatim>\<open>parseTemplate\<close> over the matches, with its two variables
  \<^verbatim>\<open>fields\<close> (here \<open>flds\<close>) and \<^verbatim>\<open>tmplStr\<close>; either \<^verbatim>\<open>log.Fatal\<close> ends it.
\<close>

fun parseMatches ::
  "'a golib_scheme \<Rightarrow> string list list \<Rightarrow> Field list \<Rightarrow> string \<Rightarrow> failure + (Field list \<times> string)"
where
  "parseMatches L [] flds tmplStr = Inr (flds, tmplStr)"
| "parseMatches L (match # matches) flds tmplStr =
     (let fExpr = match ! 1; fType = match ! 2; fFmt = match ! 3 in
      case ParseExpr L fExpr of
        Inl err \<Rightarrow> Inl (FatalParseExpr err)
      | Inr nameAST \<Rightarrow>
          (case findExprRoot nameAST of
             None \<Rightarrow> Inl (FatalNoRoot fExpr)
           | Some fNameIdent \<Rightarrow>
               parseMatches L matches
                 (flds @ [\<lparr>name_F = fNameIdent, typ_F = fType, fmt_F = fFmt, val = fExpr\<rparr>])
                 (Replace1 tmplStr (match ! 0) fFmt)))"

definition parseTemplate :: "'a golib_scheme \<Rightarrow> string \<Rightarrow> failure + ParsedTemplate" where
  "parseTemplate L tmpl =
     (let (wmode, stripped) = wrapPrefix tmpl;
          matches = FindAllStringSubmatch tmplRE stripped
      in case parseMatches L matches [] stripped of
           Inl e \<Rightarrow> Inl e
         | Inr (flds, tmplStr) \<Rightarrow> Inr \<lparr>wrap = wmode, fields_T = flds, fmt = tmplStr\<rparr>)"

subsection \<open>Emission: \<^verbatim>\<open>Generator.generate\<close>\<close>

definition NL :: string where "NL = [CHR 0x0A]"
definition TAB :: string where "TAB = [CHR 0x09]"
definition DQ :: string where "DQ = [CHR 0x22]"

text \<open>
  \<^verbatim>\<open>Printf\<close> appends to the buffer. Every verb the generator uses on its arguments
  (\<^verbatim>\<open>%s\<close>, \<^verbatim>\<open>%v\<close>, \<^verbatim>\<open>%[1]s\<close>) writes a string as it is, so the argument of \<open>Printf\<close> here is
  the formatted text.
\<close>

definition Printf :: "Generator \<Rightarrow> string \<Rightarrow> Generator" where
  "Printf g text = g\<lparr>buf := buf g @ text\<rparr>"

text \<open>The loops that write \<^verbatim>\<open>", "\<close> after every item but the last.\<close>

fun commaSep :: "string list \<Rightarrow> string" where
  "commaSep [] = []"
| "commaSep [x] = x"
| "commaSep (x # y # zs) = x @ '', '' @ commaSep (y # zs)"

text \<open>The five blocks of \<^verbatim>\<open>generate\<close>, in the order of the source.\<close>

definition genStruct :: "string \<Rightarrow> ParsedTemplate \<Rightarrow> string" where
  "genStruct sName t =
     ''type '' @ sName @ '' struct {'' @ NL
     @ (if wrap t \<noteq> NoWrap then TAB @ ''_errWrap'' @ NL else [])
     @ concat (map (\<lambda>f. TAB @ name_F f @ '' '' @ typ_F f @ NL) (fields_T t))
     @ ''}'' @ NL @ NL"

definition genConstructor :: "'a golib_scheme \<Rightarrow> Generator \<Rightarrow> string \<Rightarrow> ParsedTemplate \<Rightarrow> string" where
  "genConstructor L g sName t =
     ''func '' @ constPrefix g @ Title L sName @ ''(''
     @ commaSep (map (\<lambda>f. name_F f @ '' '' @ typ_F f) (fields_T t))
     @ (if wrap t = MustWrap then
          (if length (fields_T t) > 0 then '', '' else []) @ ''err error''
        else [])
     @ '') *'' @ sName @ '' {'' @ NL @ TAB @ ''return &'' @ sName @ ''{''
     @ (if wrap t = MustWrap \<or> wrap t = OptWrap then
          (if wrap t = MustWrap then ''_errWrap{err}'' else ''_errWrap{nil}'')
          @ (if length (fields_T t) > 0 then '', '' else [])
        else [])
     @ commaSep (map name_F (fields_T t))
     @ ''}'' @ NL @ ''}'' @ NL @ NL"

definition genError :: "string \<Rightarrow> ParsedTemplate \<Rightarrow> string" where
  "genError sName t =
     ''func (e *'' @ sName @ '') Error() string {'' @ NL
     @ (case wrap t of
          OptWrap \<Rightarrow>
            TAB @ ''if e.cause == nil {'' @ NL @ TAB @ TAB @ ''return fmt.Sprintf('' @ DQ @ fmt t @ DQ
            @ concat (map (\<lambda>f. '', e.'' @ val f) (fields_T t))
            @ '')'' @ NL @ TAB @ ''}'' @ NL @ TAB @ ''return fmt.Sprintf('' @ DQ @ fmt t @ '': %v'' @ DQ @ '', ''
            @ concat (map (\<lambda>f. ''e.'' @ val f @ '', '') (fields_T t))
            @ ''e.cause)'' @ NL
        | NoWrap \<Rightarrow>
            TAB @ ''return fmt.Sprintf('' @ DQ @ fmt t @ DQ
            @ concat (map (\<lambda>f. '', e.'' @ val f) (fields_T t))
            @ '')'' @ NL
        | MustWrap \<Rightarrow>
            TAB @ ''return fmt.Sprintf('' @ DQ @ fmt t @ '': %v'' @ DQ @ '', ''
            @ concat (map (\<lambda>f. ''e.'' @ val f @ '', '') (fields_T t))
            @ ''e.cause)'' @ NL)
     @ ''}'' @ NL"

definition genWrap :: "string \<Rightarrow> ParsedTemplate \<Rightarrow> string" where
  "genWrap sName t =
     (if wrap t \<noteq> NoWrap then
        NL @ ''func (e *'' @ sName @ '') Wrap(cause error) error {'' @ NL
        @ TAB @ ''e.cause = cause'' @ NL @ TAB @ ''return e'' @ NL @ ''}'' @ NL
      else [])"

definition genIs :: "Generator \<Rightarrow> string \<Rightarrow> ErrorSpec \<Rightarrow> string" where
  "genIs g sName spec =
     (if compatIs g then
        NL @ ''func (*'' @ sName @ '') Is(e error) bool { return e == '' @ name spec @ '' }'' @ NL @ NL
      else
        NL @ ''func (*'' @ sName @ '') Is(e '' @ typeName g @ '') bool { return e == '' @ name spec
        @ '' }'' @ NL @ NL)"

definition generate :: "'a golib_scheme \<Rightarrow> Generator \<Rightarrow> ErrorSpec \<Rightarrow> failure + Generator" where
  "generate L g spec =
     (case structName L g (name spec) of
        Inl e \<Rightarrow> Inl e
      | Inr sName \<Rightarrow>
          (case parseTemplate L (template spec) of
             Inl e \<Rightarrow> Inl e
           | Inr t \<Rightarrow>
               (let g = Printf g (genStruct sName t);
                    g = Printf g (genConstructor L g sName t);
                    g = Printf g (genError sName t);
                    g = Printf g (genWrap sName t);
                    g = Printf g (genIs g sName spec)
                in Inr g)))"

subsection \<open>The preamble (\<^verbatim>\<open>Generator.header\<close>), \<^verbatim>\<open>Generator.format\<close> and the run\<close>

definition header :: "'a golib_scheme \<Rightarrow> Generator \<Rightarrow> Generator" where
  "header L g =
     (let g = Printf g (''// Errors generated by Gorror; DO NOT EDIT.'' @ NL @ NL
                        @ ''package '' @ pkgName g @ NL @ NL);
          imports = sort (imports_G g @ [''fmt'', ''errors'']);
          g = Printf g (''import ('' @ NL);
          g = foldl (\<lambda>g imp. Printf g (TAB @ Quote L imp @ NL)) g imports;
          g = Printf g ('')'' @ NL @ NL);
          g = Printf g (''type _errWrap struct{ cause error }'' @ NL);
          g = Printf g (''func (w *_errWrap) Unwrap() error { return w.cause }'' @ NL @ NL)
      in if compatIs g then
           Printf g (''func ('' @ typeName g @ '') Error() string { panic('' @ DQ
                     @ ''Should not be called'' @ DQ @ '') }'' @ NL @ NL)
         else
           Printf (Printf g
             (''func (e '' @ typeName g @ '') IsIn(err error) bool {'' @ NL
              @ TAB @ ''var ei interface { Is('' @ typeName g @ '') bool; Unwrap() error }'' @ NL
              @ TAB @ ''if errors.As(err, &ei) {'' @ NL
              @ TAB @ TAB @ ''if ei.Is(e) { return true }'' @ NL
              @ TAB @ TAB @ ''return e.IsIn(ei.Unwrap())'' @ NL
              @ TAB @ ''}'' @ NL
              @ TAB @ ''return false}''))
             (NL @ NL))"

text \<open>
  \<^verbatim>\<open>format\<close>: the lines it logs (without the logger's prefix) and its outcome. \<open>src\<close> is
  what \<^verbatim>\<open>format.Source\<close> returned next to its error; the buffer itself appears only in
  the fatal message.
\<close>

definition format :: "'a golib_scheme \<Rightarrow> Generator \<Rightarrow> string list \<times> (failure + string)" where
  "format L g =
     (case format_Source L (buf g) of
        (src, None) \<Rightarrow> ([], Inr src)
      | (src, Some err) \<Rightarrow>
          (let logged = [''warning: failed to format generated code: '' @ err @ NL,
                         ''warning: try to compile the output to check the error'' @ NL]
           in if length src = 0 then (logged, Inl (FatalEmptyFormat (buf g)))
              else (logged, Inr src)))"

fun generateAll :: "'a golib_scheme \<Rightarrow> Generator \<Rightarrow> ErrorSpec list \<Rightarrow> failure + Generator" where
  "generateAll L g [] = Inr g"
| "generateAll L g (err # errs) =
     (case generate L g err of Inl e \<Rightarrow> Inl e | Inr g' \<Rightarrow> generateAll L g' errs)"

text \<open>
  \<^verbatim>\<open>main\<close> from the loaded specs to the bytes handed to \<^verbatim>\<open>os.WriteFile\<close>; \<open>None\<close> when
  there is no spec and nothing is written.
\<close>

definition mainRun :: "'a golib_scheme \<Rightarrow> Generator \<Rightarrow> failure + string option" where
  "mainRun L g =
     (if length (specs g) < 1 then Inr None
      else case generateAll L (header L g) (specs g) of
             Inl e \<Rightarrow> Inl e
           | Inr g' \<Rightarrow> (case snd (format L g') of Inl e \<Rightarrow> Inl e | Inr src \<Rightarrow> Inr (Some src)))"

subsection \<open>Well-formed UTF-8\<close>

text \<open>A string is well-formed when no position decodes to the error rune of width 1.\<close>

fun validUTF8 :: "string \<Rightarrow> bool" where
  "validUTF8 [] = True"
| "validUTF8 (c # s) =
     (let (r, w) = decoderune (c # s) in (byte c < 0x80 \<or> 1 < w) \<and> validUTF8 (drop (w - 1) s))"

subsection \<open>The specification's wording of the operations\<close>

text \<open>
  These definitions follow the specification, not the source; the theorems compare them
  with the source's functions above.

  Section 4.3: the constructor name is the prefix concatenated with the declared-type name,
  the first rune of the whole concatenation upper-cased.
\<close>

definition spec_constructorName :: "'a golib_scheme \<Rightarrow> Generator \<Rightarrow> string \<Rightarrow> string" where
  "spec_constructorName L g sName =
     (case toRunes (constPrefix g @ sName) of
        [] \<Rightarrow> []
      | r # rs \<Rightarrow> fromRunes (ToUpper L r # rs))"

text \<open>
  Section 3: \<^verbatim>\<open>formatString\<close> is the original text with every placeholder token replaced
  in place by its bare format verb, all other characters preserved.
\<close>

fun spec_formatString :: "regexp \<Rightarrow> string \<Rightarrow> string" where
  "spec_formatString re [] = []"
| "spec_formatString re (c # s) =
     (case matchAt re (c # s) of
        None \<Rightarrow> c # spec_formatString re s
      | Some (m, rest) \<Rightarrow>
          if length rest < length (c # s) then (m ! 3) @ spec_formatString re rest
          else c # spec_formatString re s)"

text \<open>
  Section 7: a formatting failure is a warning and the unformatted text is still returned,
  unless the unformatted text is itself empty, which is fatal.
\<close>

definition spec_format :: "'a golib_scheme \<Rightarrow> Generator \<Rightarrow> string list \<times> (failure + string)" where
  "spec_format L g =
     (case format_Source L (buf g) of
        (src, None) \<Rightarrow> ([], Inr src)
      | (src, Some err) \<Rightarrow>
          (let logged = [''warning: failed to format generated code: '' @ err @ NL,
                         ''warning: try to compile the output to check the error'' @ NL]
           in if length (buf g) = 0 then (logged, Inl (FatalEmptyFormat (buf g)))
              else (logged, Inr (buf g))))"

text \<open>
  Section 3: the name of a field is the root identifier of its accessor, reached through
  dotted-field and indexed-element steps.
\<close>

inductive rooted_at :: "string \<Rightarrow> expr \<Rightarrow> bool" where
  root_ident: "rooted_at n (Ident n)"
| root_field: "rooted_at n x \<Longrightarrow> rooted_at n (SelectorExpr x sel)"
| root_index: "rooted_at n x \<Longrightarrow> rooted_at n (IndexExpr x i)"

text \<open>
  Section 4.4, the table of the three wrap modes: the declarations of one spec, written out
  for each mode. \<open>Forbidden\<close> is \<open>NoWrap\<close>, \<open>Optional\<close> is \<open>OptWrap\<close>, \<open>Required\<close> is
  \<open>MustWrap\<close>.
\<close>

definition memberLines :: "ParsedTemplate \<Rightarrow> string" where
  "memberLines t = concat (map (\<lambda>f. TAB @ name_F f @ '' '' @ typ_F f @ NL) (fields_T t))"

definition fieldParams :: "ParsedTemplate \<Rightarrow> string list" where
  "fieldParams t = map (\<lambda>f. name_F f @ '' '' @ typ_F f) (fields_T t)"

definition sprintfNoCause :: "ParsedTemplate \<Rightarrow> string" where
  "sprintfNoCause t =
     ''fmt.Sprintf('' @ DQ @ fmt t @ DQ @ concat (map (\<lambda>f. '', e.'' @ val f) (fields_T t)) @ '')''"

definition sprintfCause :: "ParsedTemplate \<Rightarrow> string" where
  "sprintfCause t =
     ''fmt.Sprintf('' @ DQ @ fmt t @ '': %v'' @ DQ @ '', ''
     @ concat (map (\<lambda>f. ''e.'' @ val f @ '', '') (fields_T t)) @ ''e.cause)''"

definition constructorDecl ::
  "'a golib_scheme \<Rightarrow> Generator \<Rightarrow> string \<Rightarrow> string list \<Rightarrow> string list \<Rightarrow> string" where
  "constructorDecl L g sName params inits =
     ''func '' @ constructorName L g sName @ ''('' @ commaSep params @ '') *'' @ sName @ '' {'' @ NL
     @ TAB @ ''return &'' @ sName @ ''{'' @ commaSep inits @ ''}'' @ NL @ ''}'' @ NL @ NL"

definition wrapMethod :: "string \<Rightarrow> string" where
  "wrapMethod sName =
     NL @ ''func (e *'' @ sName @ '') Wrap(cause error) error {'' @ NL
     @ TAB @ ''e.cause = cause'' @ NL @ TAB @ ''return e'' @ NL @ ''}'' @ NL"

definition identityPredicate :: "string \<Rightarrow> string \<Rightarrow> string \<Rightarrow> string" where
  "identityPredicate sName paramType sentinel =
     NL @ ''func (*'' @ sName @ '') Is(e '' @ paramType @ '') bool { return e == '' @ sentinel
     @ '' }'' @ NL @ NL"

definition identityParam :: "Generator \<Rightarrow> string" where
  "identityParam g = (if compatIs g then ''error'' else typeName g)"

definition declsForbidden ::
  "'a golib_scheme \<Rightarrow> Generator \<Rightarrow> string \<Rightarrow> ErrorSpec \<Rightarrow> ParsedTemplate \<Rightarrow> string" where
  "declsForbidden L g sName spec t =
     ''type '' @ sName @ '' struct {'' @ NL @ memberLines t @ ''}'' @ NL @ NL
     @ constructorDecl L g sName (fieldParams t) (map name_F (fields_T t))
     @ ''func (e *'' @ sName @ '') Error() string {'' @ NL
     @ TAB @ ''return '' @ sprintfNoCause t @ NL
     @ ''}'' @ NL
     @ identityPredicate sName (identityParam g) (name spec)"

definition declsOptional ::
  "'a golib_scheme \<Rightarrow> Generator \<Rightarrow> string \<Rightarrow> ErrorSpec \<Rightarrow> ParsedTemplate \<Rightarrow> string" where
  "declsOptional L g sName spec t =
     ''type '' @ sName @ '' struct {'' @ NL @ TAB @ ''_errWrap'' @ NL @ memberLines t @ ''}'' @ NL @ NL
     @ constructorDecl L g sName (fieldParams t) (''_errWrap{nil}'' # map name_F (fields_T t))
     @ ''func (e *'' @ sName @ '') Error() string {'' @ NL
     @ TAB @ ''if e.cause == nil {'' @ NL
     @ TAB @ TAB @ ''return '' @ sprintfNoCause t @ NL
     @ TAB @ ''}'' @ NL
     @ TAB @ ''return '' @ sprintfCause t @ NL
     @ ''}'' @ NL
     @ wrapMethod sName
     @ identityPredicate sName (identityParam g) (name spec)"

definition declsRequired ::
  "'a golib_scheme \<Rightarrow> Generator \<Rightarrow> string \<Rightarrow> ErrorSpec \<Rightarrow> ParsedTemplate \<Rightarrow> string" where
  "declsRequired L g sName spec t =
     ''type '' @ sName @ '' struct {'' @ NL @ TAB @ ''_errWrap'' @ NL @ memberLines t @ ''}'' @ NL @ NL
     @ constructorDecl L g sName (fieldParams t @ [''err error''])
         (''_errWrap{err}'' # map name_F (fields_T t))
     @ ''func (e *'' @ sName @ '') Error() string {'' @ NL
     @ TAB @ ''return '' @ sprintfCause t @ NL
     @ ''}'' @ NL
     @ wrapMethod sName
     @ identityPredicate sName (identityParam g) (name spec)"

text \<open>
  Section 4.5, the preamble: the package clause, the imports and the cause holder, then
  either the chain search \<^verbatim>\<open>IsIn\<close> on the sentinel type or, with the compatibility switch
  on, the stub.
\<close>

definition preambleHead :: "'a golib_scheme \<Rightarrow> Generator \<Rightarrow> string" where
  "preambleHead L g =
     ''// Errors generated by Gorror; DO NOT EDIT.'' @ NL @ NL
     @ ''package '' @ pkgName g @ NL @ NL
     @ ''import ('' @ NL
     @ concat (map (\<lambda>imp. TAB @ Quote L imp @ NL) (sort (imports_G g @ [''fmt'', ''errors''])))
     @ '')'' @ NL @ NL
     @ ''type _errWrap struct{ cause error }'' @ NL
     @ ''func (w *_errWrap) Unwrap() error { return w.cause }'' @ NL @ NL"

definition sentinelStub :: "Generator \<Rightarrow> string" where
  "sentinelStub g =
     ''func ('' @ typeName g @ '') Error() string { panic('' @ DQ @ ''Should not be called'' @ DQ
     @ '') }'' @ NL @ NL"

definition chainSearch :: "Generator \<Rightarrow> string" where
  "chainSearch g =
     ''func (e '' @ typeName g @ '') IsIn(err error) bool {'' @ NL
     @ TAB @ ''var ei interface { Is('' @ typeName g @ '') bool; Unwrap() error }'' @ NL
     @ TAB @ ''if errors.As(err, &ei) {'' @ NL
     @ TAB @ TAB @ ''if ei.Is(e) { return true }'' @ NL
     @ TAB @ TAB @ ''return e.IsIn(ei.Unwrap())'' @ NL
     @ TAB @ ''}'' @ NL
     @ TAB @ ''return false}'' @ NL @ NL"

subsection \<open>A library instance for the examples\<close>

text \<open>
  The examples below run the generator on the templates of the repository's tests. They
  need values for the library parameters: tables that leave every rune above ASCII alone,
  and the results of \<^verbatim>\<open>parser.ParseExpr\<close> on the accessor texts that occur in the examples
  (an identifier, \<^verbatim>\<open>c.Field[0]\<close>, the literal \<^verbatim>\<open>0\<close>); on any other text this instance reports an
  error, and no example depends on that.
\<close>

definition sampleParseExpr :: "string \<Rightarrow> string + expr" where
  "sampleParseExpr s =
     (if s \<in> set [''filename'', ''op'', ''file'', ''code'', ''c'', ''x'', ''y''] then Inr (Ident s)
      else if s = ''c.Field[0]'' then
        Inr (IndexExpr (SelectorExpr (Ident ''c'') ''Field'') (BasicLit ''0''))
      else if s = ''0'' then Inr (BasicLit ''0'')
      else Inl ''syntax error'')"

definition sampleLib :: golib where
  "sampleLib = \<lparr>To_UpperCase = (\<lambda>r. r), To_LowerCase = (\<lambda>r. r), To_TitleCase = (\<lambda>r. r),
     IsLetter = (\<lambda>r. False), IsDigit = (\<lambda>r. False), IsSpace = (\<lambda>r. False),
     ParseExpr = sampleParseExpr, Quote = (\<lambda>s. DQ @ s @ DQ),
     format_Source = (\<lambda>s. (s, None))\<rparr>"

definition testGenerator :: Generator where
  "testGenerator = \<lparr>typeName = ''Err'', compatIs = False, makePub = False, specSuffix = [],
     imports_G = [], buf = [], specs = [], pkgName = ''test''\<rparr>"

section \<open>Verification\<close>

subsection \<open>UTF-8: encoding undoes decoding on well-formed strings\<close>

lemma toRunes_Nil_iff: "toRunes s = [] \<longleftrightarrow> s = []"
  by (cases s) (auto split: prod.splits)

lemma char_of_byte: "char_of (byte c) = c"
  by (simp add: byte_def)

lemma lead2: "0xC0 \<le> b0 \<Longrightarrow> b0 < 0xE0 \<Longrightarrow> 0xC0 + b0 mod 32 = (b0::nat)"
proof -
  assume a: "0xC0 \<le> b0" "b0 < 0xE0"
  then have "b0 mod 32 = b0 - 0xC0" by (simp add: mod_nat_eqI)
  with a show ?thesis by simp
qed

lemma lead3: "0xE0 \<le> b0 \<Longrightarrow> b0 < 0xF0 \<Longrightarrow> 0xE0 + b0 mod 16 = (b0::nat)"
proof -
  assume a: "0xE0 \<le> b0" "b0 < 0xF0"
  then have "b0 mod 16 = b0 - 0xE0" by (simp add: mod_nat_eqI)
  with a show ?thesis by simp
qed

lemma lead4: "0xF0 \<le> b0 \<Longrightarrow> b0 < 0xF8 \<Longrightarrow> 0xF0 + b0 mod 8 = (b0::nat)"
proof -
  assume a: "0xF0 \<le> b0" "b0 < 0xF8"
  then have "b0 mod 8 = b0 - 0xF0" by (simp add: mod_nat_eqI)
  with a show ?thesis by simp
qed

lemma cont: "locb_hicb c \<Longrightarrow> 0x80 + byte c mod 64 = byte c"
proof -
  assume "locb_hicb c"
  then have a: "0x80 \<le> byte c" "byte c \<le> 0xBF" by (simp_all add: locb_hicb_def)
  then have "byte c mod 64 = byte c - 0x80" by (simp add: mod_nat_eqI)
  with a show ?thesis by simp
qed

lemma digits64_2: "j < 64 \<Longrightarrow> (k * 64 + j) div 64 = (k::nat) \<and> (k * 64 + j) mod 64 = j"
  by simp

lemma digits64_3:
  assumes "j < 64" "i < 64" "r = k * 4096 + i * 64 + (j::nat)"
  shows "r div 4096 = k \<and> (r div 64) mod 64 = i \<and> r mod 64 = j"
proof -
  have 1: "r = (k * 64 + i) * 64 + j" using assms(3) by simp
  have 2: "r div 64 = k * 64 + i" "r mod 64 = j"
    using digits64_2 [OF assms(1), of "k * 64 + i"] by (simp_all only: 1)
  have 3: "(r div 64) div 64 = k" "(r div 64) mod 64 = i"
    using digits64_2 [OF assms(2), of k] by (simp_all only: 2)
  have "r div 4096 = (r div 64) div 64"
    by (simp add: div_mult2_eq)
  with 2 3 show ?thesis by simp
qed

lemma digits64_4:
  assumes "j < 64" "i < 64" "h < 64" "r = k * 262144 + h * 4096 + i * 64 + (j::nat)"
  shows "r div 262144 = k \<and> (r div 4096) mod 64 = h \<and> (r div 64) mod 64 = i \<and> r mod 64 = j"
proof -
  have 1: "r = ((k * 64 + h) * 64 + i) * 64 + j" using assms(4) by simp
  have 2: "r div 64 = (k * 64 + h) * 64 + i" "r mod 64 = j"
    using digits64_2 [OF assms(1), of "(k * 64 + h) * 64 + i"] by (simp_all only: 1)
  have 3: "(r div 64) div 64 = k * 64 + h" "(r div 64) mod 64 = i"
    using digits64_2 [OF assms(2), of "k * 64 + h"] by (simp_all only: 2)
  have 4: "((r div 64) div 64) div 64 = k" "((r div 64) div 64) mod 64 = h"
    using digits64_2 [OF assms(3), of k] by (simp_all only: 3)
  have 5: "r div 4096 = (r div 64) div 64"
    by (simp add: div_mult2_eq)
  have 6: "r div 262144 = ((r div 64) div 64) div 64"
    by (simp add: div_mult2_eq)
  from 2 3 4 5 6 show ?thesis by simp
qed

lemma decode2_encode:
  assumes "decode2 (byte c0) s = Some (r, w)" "0xC0 \<le> byte c0" "byte c0 < 0xE0"
  shows "encodeRune r = take w (c0 # s)"
proof -
  from assms(1) obtain c1 s' where s: "s = c1 # s'" and c1: "locb_hicb c1"
    and r: "r = (byte c0 mod 32) * 64 + byte c1 mod 64" and lo: "0x7F < r" and w: "w = 2"
    by (auto simp: decode2_def Let_def split: list.splits if_splits)
  have kb: "byte c0 mod 32 < 32" and jb: "byte c1 mod 64 < 64" by simp_all
  from digits64_2 [OF jb, of "byte c0 mod 32"] r
  have d: "r div 64 = byte c0 mod 32" "r mod 64 = byte c1 mod 64" by simp_all
  have "r < 0x800" using r kb jb by simp
  moreover have "0xC0 + r div 64 = byte c0" using d lead2 [OF assms(2,3)] by simp
  moreover have "0x80 + r mod 64 = byte c1" using d cont [OF c1] by simp
  ultimately have "encodeRune r = [c0, c1]"
    using lo by (simp add: encodeRune_def char_of_byte)
  with s w show ?thesis by simp
qed

lemma decode3_encode:
  assumes "decode3 (byte c0) s = Some (r, w)" "0xE0 \<le> byte c0" "byte c0 < 0xF0"
  shows "encodeRune r = take w (c0 # s)"
proof -
  from assms(1) obtain c1 c2 s' where s: "s = c1 # c2 # s'"
    and c1: "locb_hicb c1" and c2: "locb_hicb c2"
    and r: "r = (byte c0 mod 16) * 4096 + (byte c1 mod 64) * 64 + byte c2 mod 64"
    and lo: "0x7FF < r" and sur: "\<not> (0xD800 \<le> r \<and> r \<le> 0xDFFF)" and w: "w = 3"
    by (auto simp: decode3_def Let_def split: list.splits if_splits)
  have kb: "byte c0 mod 16 < 16" and ib: "byte c1 mod 64 < 64" and jb: "byte c2 mod 64 < 64"
    by simp_all
  from digits64_3 [OF jb ib r]
  have d: "r div 4096 = byte c0 mod 16" "(r div 64) mod 64 = byte c1 mod 64"
    "r mod 64 = byte c2 mod 64" by simp_all
  have "r < 0x10000" using r kb ib jb by simp
  moreover have "0xE0 + r div 4096 = byte c0" using d lead3 [OF assms(2,3)] by simp
  moreover have "0x80 + (r div 64) mod 64 = byte c1" using d cont [OF c1] by simp
  moreover have "0x80 + r mod 64 = byte c2" using d cont [OF c2] by simp
  ultimately have "encodeRune r = [c0, c1, c2]"
    using lo sur by (auto simp: encodeRune_def char_of_byte)
  with s w show ?thesis by simp
qed

lemma decode4_encode:
  assumes "decode4 (byte c0) s = Some (r, w)" "0xF0 \<le> byte c0" "byte c0 < 0xF8"
  shows "encodeRune r = take w (c0 # s)"
proof -
  from assms(1) obtain c1 c2 c3 s' where s: "s = c1 # c2 # c3 # s'"
    and c1: "locb_hicb c1" and c2: "locb_hicb c2" and c3: "locb_hicb c3"
    and r: "r = (byte c0 mod 8) * 262144 + (byte c1 mod 64) * 4096
                + (byte c2 mod 64) * 64 + byte c3 mod 64"
    and lo: "0xFFFF < r" and hi: "r \<le> 0x10FFFF" and w: "w = 4"
    by (auto simp: decode4_def Let_def split: list.splits if_splits)
  have hb: "byte c1 mod 64 < 64" and ib: "byte c2 mod 64 < 64" and jb: "byte c3 mod 64 < 64"
    by simp_all
  from digits64_4 [OF jb ib hb r]
  have d: "r div 262144 = byte c0 mod 8" "(r div 4096) mod 64 = byte c1 mod 64"
    "(r div 64) mod 64 = byte c2 mod 64" "r mod 64 = byte c3 mod 64" by simp_all
  have "0xF0 + r div 262144 = byte c0" using d lead4 [OF assms(2,3)] by simp
  moreover have "0x80 + (r div 4096) mod 64 = byte c1" using d cont [OF c1] by simp
  moreover have "0x80 + (r div 64) mod 64 = byte c2" using d cont [OF c2] by simp
  moreover have "0x80 + r mod 64 = byte c3" using d cont [OF c3] by simp
  ultimately have "encodeRune r = [c0, c1, c2, c3]"
    using lo hi by (simp add: encodeRune_def char_of_byte)
  with s w show ?thesis by simp
qed

lemma decoderune_encode:
  assumes "decoderune (c # s) = (r, w)" "byte c < 0x80 \<or> 1 < w"
  shows "encodeRune r = take w (c # s)"
proof (cases "byte c < 0x80")
  case True
  with assms(1) show ?thesis by (auto simp: encodeRune_def char_of_byte)
next
  case False
  with assms have w: "1 < w" by simp
  with assms(1) False have m: "decodeMulti (byte c) s = Some (r, w)"
    by (auto split: option.splits)
  then show ?thesis
    by (auto simp: decodeMulti_def split: if_splits
        intro: decode2_encode decode3_encode decode4_encode)
qed

lemma decoderune_width: "decoderune (c # s) = (r, w) \<Longrightarrow> 1 \<le> w \<and> w \<le> Suc (length s)"
  by (auto simp: decodeMulti_def decode2_def decode3_def decode4_def Let_def
      split: option.splits if_splits list.splits)

lemma fromRunes_toRunes: "validUTF8 s \<Longrightarrow> fromRunes (toRunes s) = s"
proof (induction s rule: toRunes.induct)
  case 1
  show ?case by (simp add: fromRunes_def)
next
  case (2 c s)
  obtain r w where d: "decoderune (c # s) = (r, w)" by (cases "decoderune (c # s)")
  from "2.prems" d have v: "byte c < 0x80 \<or> 1 < w" "validUTF8 (drop (w - 1) s)" by auto
  from "2.IH" [OF d [symmetric] refl v(2)] have ih: "fromRunes (toRunes (drop (w - 1) s)) = drop (w - 1) s" .
  from decoderune_width [OF d] have "take w (c # s) = c # take (w - 1) s"
    by (cases w) auto
  with decoderune_encode [OF d v(1)] have "encodeRune r = c # take (w - 1) s" by simp
  with ih d show ?case by (simp add: fromRunes_def)
qed

subsection \<open>String helpers\<close>

lemma HasSuffix_iff: "HasSuffix s x \<longleftrightarrow> (\<exists>pre. s = pre @ x)"
proof
  assume "HasSuffix s x"
  then have "s = take (length s - length x) s @ x"
    by (metis HasSuffix_def append_take_drop_id)
  then show "\<exists>pre. s = pre @ x" ..
next
  assume "\<exists>pre. s = pre @ x"
  then show "HasSuffix s x" by (auto simp: HasSuffix_def)
qed

lemma TrimSuffix_append: "TrimSuffix (pre @ x) x = pre"
  by (simp add: TrimSuffix_def HasSuffix_def)

lemma TrimSuffix_no: "\<not> (\<exists>pre. s = pre @ x) \<Longrightarrow> TrimSuffix s x = s"
  by (simp add: TrimSuffix_def HasSuffix_iff)

lemma HasPrefix_iff: "HasPrefix s p \<longleftrightarrow> prefix p s"
  by (auto simp: HasPrefix_def prefix_def) (metis append_take_drop_id)

lemma toRunes_Cons_valid:
  assumes "toRunes s = r0 # rs" "validUTF8 s"
  shows "s = encodeRune r0 @ fromRunes rs"
proof -
  from fromRunes_toRunes [OF assms(2)] assms(1) show ?thesis
    by (simp add: fromRunes_def)
qed

lemma commaSep_Cons: "commaSep (x # xs) = x @ (if xs = [] then [] else '', '' @ commaSep xs)"
  by (cases xs) auto

lemma commaSep_snoc: "commaSep (xs @ [x]) = (if xs = [] then [] else commaSep xs @ '', '') @ x"
  by (induction xs rule: commaSep.induct) auto

subsection \<open>Naming policy\<close>

text \<open>
  Claim C9. For a spec name whose first rune is \<open>r0\<close> and whose remaining runes are \<open>rs\<close>,
  the declared-type name is the encoding of \<open>r0\<close> lowered (\<open>makePub\<close> false) or uppered
  (\<open>makePub\<close> true), followed by a remainder: when the suffix to trim is non-empty and the
  text after the first rune ends with it, the remainder is that text with the suffix
  removed once from its tail; otherwise it is that text unchanged. For a well-formed
  spec name the text after the first rune is the spec name's own bytes, so with an empty
  suffix only the first rune differs.
\<close>

theorem structName_naming:
  assumes "toRunes specName = r0 # rs"
  shows "\<exists>rest. structName L g specName
             = Inr (encodeRune (if makePub g then ToUpper L r0 else ToLower L r0) @ rest)
         \<and> (specSuffix g \<noteq> [] \<and> (\<exists>pre. fromRunes rs = pre @ specSuffix g)
              \<longrightarrow> rest @ specSuffix g = fromRunes rs)
         \<and> (specSuffix g = [] \<or> \<not> (\<exists>pre. fromRunes rs = pre @ specSuffix g)
              \<longrightarrow> rest = fromRunes rs)
         \<and> (validUTF8 specName \<longrightarrow> specName = encodeRune r0 @ fromRunes rs)"
proof -
  let ?rest = "if length (specSuffix g) > 0 then TrimSuffix (fromRunes rs) (specSuffix g)
               else fromRunes rs"
  have 1: "structName L g specName
             = Inr (encodeRune (if makePub g then ToUpper L r0 else ToLower L r0) @ ?rest)"
    using assms by (simp add: structName_def Let_def)
  have 2: "specSuffix g \<noteq> [] \<and> (\<exists>pre. fromRunes rs = pre @ specSuffix g)
              \<longrightarrow> ?rest @ specSuffix g = fromRunes rs"
    by (auto simp: TrimSuffix_append)
  have 3: "specSuffix g = [] \<or> \<not> (\<exists>pre. fromRunes rs = pre @ specSuffix g)
              \<longrightarrow> ?rest = fromRunes rs"
    using TrimSuffix_no [of "fromRunes rs" "specSuffix g"] by auto
  have 4: "validUTF8 specName \<longrightarrow> specName = encodeRune r0 @ fromRunes rs"
    using toRunes_Cons_valid [OF assms] by simp
  from 1 2 3 4 show ?thesis by blast
qed

theorem structName_naming_witness:
  "toRunes ''ErrOpenErr'' = [69, 114, 114, 79, 112, 101, 110, 69, 114, 114]
   \<and> structName sampleLib (testGenerator\<lparr>specSuffix := ''Err''\<rparr>) ''ErrOpenErr'' = Inr ''errOpen''
   \<and> structName sampleLib (testGenerator\<lparr>makePub := True\<rparr>) ''errOpenErr'' = Inr ''ErrOpenErr''"
proof -
  have h: "toRunes ''ErrOpenErr'' = 69 # [114, 114, 79, 112, 101, 110, 69, 114, 114]"
    by code_simp
  have h2: "toRunes ''errOpenErr'' = 101 # [114, 114, 79, 112, 101, 110, 69, 114, 114]"
    by code_simp
  have f: "fromRunes [114, 114, 79, 112, 101, 110, 69, 114, 114] = ''rrOpen'' @ ''Err''"
    by code_simp
  have e: "encodeRune (ToLower sampleLib 69) = ''e''" "encodeRune (ToUpper sampleLib 101) = ''E''"
    by code_simp+
  from structName_naming [OF h, of sampleLib "testGenerator\<lparr>specSuffix := ''Err''\<rparr>"]
  obtain rest where r: "structName sampleLib (testGenerator\<lparr>specSuffix := ''Err''\<rparr>) ''ErrOpenErr''
      = Inr (encodeRune (ToLower sampleLib 69) @ rest)" "rest @ ''Err'' = ''rrOpen'' @ ''Err''"
    unfolding f by (auto simp: testGenerator_def)
  from structName_naming [OF h2, of sampleLib "testGenerator\<lparr>makePub := True\<rparr>"]
  have "structName sampleLib (testGenerator\<lparr>makePub := True\<rparr>) ''errOpenErr''
      = Inr (encodeRune (ToUpper sampleLib 101) @ ''rrOpenErr'')"
    unfolding f by (auto simp: testGenerator_def)
  with r h e show ?thesis by simp
qed

text \<open>
  Claim C10. \<open>structName\<close> indexes the first rune unconditionally: it panics with an index
  out of range exactly on the empty spec name, and returns a name on every other input.
\<close>

theorem structName_empty_panics:
  "(structName L g specName = Inl PanicIndexOutOfRange \<longleftrightarrow> specName = [])
   \<and> (specName \<noteq> [] \<longrightarrow> (\<exists>sName. structName L g specName = Inr sName))"
proof (cases "toRunes specName")
  case Nil
  then show ?thesis by (simp add: structName_def toRunes_Nil_iff)
next
  case (Cons r0 rs)
  then have "specName \<noteq> []" by auto
  with Cons show ?thesis by (simp add: structName_def Let_def)
qed

theorem structName_empty_panics_witness:
  "structName sampleLib testGenerator [] = Inl PanicIndexOutOfRange
   \<and> ''ErrOpen'' \<noteq> [] \<and> (\<exists>sName. structName sampleLib testGenerator ''ErrOpen'' = Inr sName)"
  using structName_empty_panics [of sampleLib testGenerator "[]"]
    structName_empty_panics [of sampleLib testGenerator "''ErrOpen''"]
  by simp

lemma titleMap_no_separator:
  "\<not> isSeparator L prev \<Longrightarrow> \<forall>x\<in>set rs. \<not> isSeparator L x \<Longrightarrow> titleMap L prev rs = rs"
  by (induction rs arbitrary: prev) auto

lemma isSeparator_space: "isSeparator L 32"
  by (simp add: isSeparator_def)

text \<open>
  Claim C4, as amended. The constructor name is the prefix (\<open>new\<close>, or \<open>New\<close> when
  \<open>makePub\<close> is set) followed by \<^verbatim>\<open>strings.Title\<close> of the declared-type name; its first
  character is the prefix's own, lower-case \<open>n\<close> when \<open>makePub\<close> is false. For a
  declared-type name without separator runes, \<^verbatim>\<open>strings.Title\<close> changes the first rune
  only, to its title case. The emitted constructor starts with this name.
\<close>

theorem constructorName_prefix_Title:
  "constructorName L g sName = (if makePub g then ''New'' else ''new'') @ Title L sName
   \<and> hd (constructorName L g sName) = (if makePub g then CHR ''N'' else CHR ''n'')
   \<and> (\<forall>r rs. toRunes sName = r # rs \<and> (\<forall>x\<in>set (r # rs). \<not> isSeparator L x)
        \<longrightarrow> Title L sName = fromRunes (ToTitle L r # rs))
   \<and> (\<exists>rest. genConstructor L g sName t = ''func '' @ constructorName L g sName @ ''('' @ rest)"
proof -
  have 1: "constructorName L g sName = (if makePub g then ''New'' else ''new'') @ Title L sName"
    by (simp add: constructorName_def constPrefix_def)
  have 2: "hd (constructorName L g sName) = (if makePub g then CHR ''N'' else CHR ''n'')"
    by (simp add: 1)
  have 3: "\<forall>r rs. toRunes sName = r # rs \<and> (\<forall>x\<in>set (r # rs). \<not> isSeparator L x)
        \<longrightarrow> Title L sName = fromRunes (ToTitle L r # rs)"
    by (auto simp: Title_def isSeparator_space titleMap_no_separator)
  have 4: "\<exists>rest. genConstructor L g sName t = ''func '' @ constructorName L g sName @ ''('' @ rest"
    by (simp add: genConstructor_def constructorName_def)
  from 1 2 3 4 show ?thesis by blast
qed

theorem constructorName_prefix_Title_witness:
  "toRunes ''errOpen'' = [101, 114, 114, 79, 112, 101, 110]
   \<and> list_all (\<lambda>x. \<not> isSeparator sampleLib x) [101, 114, 114, 79, 112, 101, 110]
   \<and> Title sampleLib ''errOpen'' = ''ErrOpen''
   \<and> constructorName sampleLib testGenerator ''errOpen'' = ''newErrOpen''"
proof -
  have h: "toRunes ''errOpen'' = 101 # [114, 114, 79, 112, 101, 110]" by code_simp
  have s: "\<forall>x\<in>set (101 # [114, 114, 79, 112, 101, 110]). \<not> isSeparator sampleLib x"
    by (simp add: isSeparator_def)
  have f: "fromRunes (ToTitle sampleLib 101 # [114, 114, 79, 112, 101, 110]) = ''ErrOpen''"
    by code_simp
  have m: "\<not> makePub testGenerator" by (simp add: testGenerator_def)
  from constructorName_prefix_Title [of sampleLib testGenerator "''errOpen''"] h s f m
  show ?thesis by (simp add: isSeparator_def)
qed

text \<open>
  The claim as stated (first rune of the whole concatenation upper-cased) fails on the
  spec \<open>ErrOpen\<close> of the golden tests: the source emits \<open>newErrOpen\<close>.
\<close>

theorem constructorName_counterexample:
  "constructorName sampleLib testGenerator ''errOpen'' = ''newErrOpen''
   \<and> spec_constructorName sampleLib testGenerator ''errOpen'' = ''NewerrOpen''
   \<and> constructorName sampleLib testGenerator ''errOpen''
       \<noteq> spec_constructorName sampleLib testGenerator ''errOpen''"
  by code_simp

subsection \<open>Emission per wrap mode\<close>

lemma Printf_Printf: "Printf (Printf g a) b = Printf g (a @ b)"
  by (simp add: Printf_def)

lemma genConstructor_Printf: "genConstructor L (Printf g a) sName t = genConstructor L g sName t"
  by (simp add: genConstructor_def Printf_def constPrefix_def)

lemma genIs_Printf: "genIs (Printf g a) sName spec = genIs g sName spec"
  by (simp add: genIs_def Printf_def)

lemma generate_Inr:
  assumes "structName L g (name spec) = Inr sName" "parseTemplate L (template spec) = Inr t"
  shows "generate L g spec = Inr (Printf g (genStruct sName t @ genConstructor L g sName t
           @ genError sName t @ genWrap sName t @ genIs g sName spec))"
  using assms by (simp add: generate_def Let_def Printf_Printf genConstructor_Printf genIs_Printf)

lemma genIs_identityPredicate:
  "genIs g sName spec = identityPredicate sName (identityParam g) (name spec)"
  by (simp add: genIs_def identityPredicate_def identityParam_def)

lemma decls_NoWrap:
  "wrap t = NoWrap \<Longrightarrow> genStruct sName t @ genConstructor L g sName t
           @ genError sName t @ genWrap sName t @ genIs g sName spec = declsForbidden L g sName spec t"
  unfolding genIs_identityPredicate
  by (simp add: genStruct_def genConstructor_def genError_def genWrap_def declsForbidden_def
      memberLines_def constructorDecl_def constructorName_def fieldParams_def sprintfNoCause_def)

lemma decls_OptWrap:
  "wrap t = OptWrap \<Longrightarrow> genStruct sName t @ genConstructor L g sName t
           @ genError sName t @ genWrap sName t @ genIs g sName spec = declsOptional L g sName spec t"
  unfolding genIs_identityPredicate
  by (simp add: genStruct_def genConstructor_def genError_def genWrap_def declsOptional_def
      memberLines_def constructorDecl_def constructorName_def fieldParams_def sprintfNoCause_def
      sprintfCause_def wrapMethod_def commaSep_Cons)

lemma decls_MustWrap:
  "wrap t = MustWrap \<Longrightarrow> genStruct sName t @ genConstructor L g sName t
           @ genError sName t @ genWrap sName t @ genIs g sName spec = declsRequired L g sName spec t"
  unfolding genIs_identityPredicate
  by (simp add: genStruct_def genConstructor_def genError_def genWrap_def declsRequired_def
      memberLines_def constructorDecl_def constructorName_def fieldParams_def
      sprintfCause_def wrapMethod_def commaSep_Cons commaSep_snoc)

text \<open>
  Claim C1. For every spec that has a declared-type name and a parsed template,
  \<open>generate\<close> returns the generator with the declarations of the table of section 4.4 for
  the template's wrap mode appended to its buffer, and nothing else changed:
  \<open>declsForbidden\<close> (no cause holder, constructor over the fields only, one unconditional
  \<^verbatim>\<open>Sprintf\<close> of the residual format string, no \<^verbatim>\<open>Wrap\<close>), \<open>declsOptional\<close> (cause holder set
  to \<^verbatim>\<open>nil\<close>, constructor over the fields only, a branch on \<^verbatim>\<open>e.cause == nil\<close>, \<^verbatim>\<open>Wrap\<close>
  emitted) or \<open>declsRequired\<close> (trailing \<^verbatim>\<open>err error\<close> parameter initialising the holder,
  one unconditional \<^verbatim>\<open>Sprintf\<close> with the cause, \<^verbatim>\<open>Wrap\<close> emitted).
\<close>

theorem generate_wrap_modes:
  assumes "structName L g (name spec) = Inr sName" "parseTemplate L (template spec) = Inr t"
  shows "generate L g spec =
           Inr (g\<lparr>buf := buf g @ (case wrap t of
                                     NoWrap \<Rightarrow> declsForbidden L g sName spec t
                                   | OptWrap \<Rightarrow> declsOptional L g sName spec t
                                   | MustWrap \<Rightarrow> declsRequired L g sName spec t)\<rparr>)"
  using generate_Inr [OF assms] decls_NoWrap [of t sName L g spec]
    decls_OptWrap [of t sName L g spec] decls_MustWrap [of t sName L g spec]
  by (cases "wrap t") (simp_all add: Printf_def)

theorem generate_wrap_modes_witness:
  "generate sampleLib testGenerator \<lparr>name = ''ErrSome'', template = ''nowrap:some error''\<rparr>
     = Inr (testGenerator\<lparr>buf :=
         ''type errSome struct {'' @ NL @ ''}'' @ NL @ NL
         @ ''func newErrSome() *errSome {'' @ NL
         @ TAB @ ''return &errSome{}'' @ NL @ ''}'' @ NL @ NL
         @ ''func (e *errSome) Error() string {'' @ NL
         @ TAB @ ''return fmt.Sprintf('' @ DQ @ ''some error'' @ DQ @ '')'' @ NL
         @ ''}'' @ NL
         @ NL @ ''func (*errSome) Is(e Err) bool { return e == ErrSome }'' @ NL @ NL\<rparr>)
   \<and> generate sampleLib testGenerator \<lparr>name = ''ErrSome'', template = ''wrap:some error''\<rparr>
     = Inr (testGenerator\<lparr>buf :=
         ''type errSome struct {'' @ NL @ TAB @ ''_errWrap'' @ NL @ ''}'' @ NL @ NL
         @ ''func newErrSome(err error) *errSome {'' @ NL
         @ TAB @ ''return &errSome{_errWrap{err}}'' @ NL @ ''}'' @ NL @ NL
         @ ''func (e *errSome) Error() string {'' @ NL
         @ TAB @ ''return fmt.Sprintf('' @ DQ @ ''some error: %v'' @ DQ @ '', e.cause)'' @ NL
         @ ''}'' @ NL
         @ NL @ ''func (e *errSome) Wrap(cause error) error {'' @ NL
         @ TAB @ ''e.cause = cause'' @ NL @ TAB @ ''return e'' @ NL @ ''}'' @ NL
         @ NL @ ''func (*errSome) Is(e Err) bool { return e == ErrSome }'' @ NL @ NL\<rparr>)
   \<and> generate sampleLib testGenerator
        \<lparr>name = ''ErrOpen'', template = ''failed to open {{filename string %q}}''\<rparr>
     = Inr (testGenerator\<lparr>buf :=
         ''type errOpen struct {'' @ NL @ TAB @ ''_errWrap'' @ NL
         @ TAB @ ''filename string'' @ NL @ ''}'' @ NL @ NL
         @ ''func newErrOpen(filename string) *errOpen {'' @ NL
         @ TAB @ ''return &errOpen{_errWrap{nil}, filename}'' @ NL @ ''}'' @ NL @ NL
         @ ''func (e *errOpen) Error() string {'' @ NL
         @ TAB @ ''if e.cause == nil {'' @ NL
         @ TAB @ TAB @ ''return fmt.Sprintf('' @ DQ @ ''failed to open %q'' @ DQ @ '', e.filename)'' @ NL
         @ TAB @ ''}'' @ NL
         @ TAB @ ''return fmt.Sprintf('' @ DQ @ ''failed to open %q: %v'' @ DQ
         @ '', e.filename, e.cause)'' @ NL
         @ ''}'' @ NL
         @ NL @ ''func (e *errOpen) Wrap(cause error) error {'' @ NL
         @ TAB @ ''e.cause = cause'' @ NL @ TAB @ ''return e'' @ NL @ ''}'' @ NL
         @ NL @ ''func (*errOpen) Is(e Err) bool { return e == ErrOpen }'' @ NL @ NL\<rparr>)"
proof -
  let ?s1 = "\<lparr>name = ''ErrSome'', template = ''nowrap:some error''\<rparr>"
  let ?s2 = "\<lparr>name = ''ErrSome'', template = ''wrap:some error''\<rparr>"
  let ?s3 = "\<lparr>name = ''ErrOpen'', template = ''failed to open {{filename string %q}}''\<rparr>"
  let ?t1 = "\<lparr>wrap = NoWrap, fields_T = [], fmt = ''some error''\<rparr>"
  let ?t2 = "\<lparr>wrap = MustWrap, fields_T = [], fmt = ''some error''\<rparr>"
  let ?t3 = "\<lparr>wrap = OptWrap,
              fields_T = [\<lparr>name_F = ''filename'', typ_F = ''string'', fmt_F = ''%q'', val = ''filename''\<rparr>],
              fmt = ''failed to open %q''\<rparr>"
  have n1: "structName sampleLib testGenerator (name ?s1) = Inr ''errSome''" by code_simp
  have n2: "structName sampleLib testGenerator (name ?s2) = Inr ''errSome''" by code_simp
  have n3: "structName sampleLib testGenerator (name ?s3) = Inr ''errOpen''" by code_simp
  have p1: "parseTemplate sampleLib (template ?s1) = Inr ?t1" by code_simp
  have p2: "parseTemplate sampleLib (template ?s2) = Inr ?t2" by code_simp
  have p3: "parseTemplate sampleLib (template ?s3) = Inr ?t3" by code_simp
  have d1: "declsForbidden sampleLib testGenerator ''errSome'' ?s1 ?t1 =
         ''type errSome struct {'' @ NL @ ''}'' @ NL @ NL
         @ ''func newErrSome() *errSome {'' @ NL
         @ TAB @ ''return &errSome{}'' @ NL @ ''}'' @ NL @ NL
         @ ''func (e *errSome) Error() string {'' @ NL
         @ TAB @ ''return fmt.Sprintf('' @ DQ @ ''some error'' @ DQ @ '')'' @ NL
         @ ''}'' @ NL
         @ NL @ ''func (*errSome) Is(e Err) bool { return e == ErrSome }'' @ NL @ NL"
    by code_simp
  have d2: "declsRequired sampleLib testGenerator ''errSome'' ?s2 ?t2 =
         ''type errSome struct {'' @ NL @ TAB @ ''_errWrap'' @ NL @ ''}'' @ NL @ NL
         @ ''func newErrSome(err error) *errSome {'' @ NL
         @ TAB @ ''return &errSome{_errWrap{err}}'' @ NL @ ''}'' @ NL @ NL
         @ ''func (e *errSome) Error() string {'' @ NL
         @ TAB @ ''return fmt.Sprintf('' @ DQ @ ''some error: %v'' @ DQ @ '', e.cause)'' @ NL
         @ ''}'' @ NL
         @ NL @ ''func (e *errSome) Wrap(cause error) error {'' @ NL
         @ TAB @ ''e.cause = cause'' @ NL @ TAB @ ''return e'' @ NL @ ''}'' @ NL
         @ NL @ ''func (*errSome) Is(e Err) bool { return e == ErrSome }'' @ NL @ NL"
    by code_simp
  have d3: "declsOptional sampleLib testGenerator ''errOpen'' ?s3 ?t3 =
         ''type errOpen struct {'' @ NL @ TAB @ ''_errWrap'' @ NL
         @ TAB @ ''filename string'' @ NL @ ''}'' @ NL @ NL
         @ ''func newErrOpen(filename string) *errOpen {'' @ NL
         @ TAB @ ''return &errOpen{_errWrap{nil}, filename}'' @ NL @ ''}'' @ NL @ NL
         @ ''func (e *errOpen) Error() string {'' @ NL
         @ TAB @ ''if e.cause == nil {'' @ NL
         @ TAB @ TAB @ ''return fmt.Sprintf('' @ DQ @ ''failed to open %q'' @ DQ @ '', e.filename)'' @ NL
         @ TAB @ ''}'' @ NL
         @ TAB @ ''return fmt.Sprintf('' @ DQ @ ''failed to open %q: %v'' @ DQ
         @ '', e.filename, e.cause)'' @ NL
         @ ''}'' @ NL
         @ NL @ ''func (e *errOpen) Wrap(cause error) error {'' @ NL
         @ TAB @ ''e.cause = cause'' @ NL @ TAB @ ''return e'' @ NL @ ''}'' @ NL
         @ NL @ ''func (*errOpen) Is(e Err) bool { return e == ErrOpen }'' @ NL @ NL"
    by code_simp
  have b: "buf testGenerator = []" by (simp add: testGenerator_def)
  have g1: "generate sampleLib testGenerator ?s1
              = Inr (testGenerator\<lparr>buf := declsForbidden sampleLib testGenerator ''errSome'' ?s1 ?t1\<rparr>)"
    using generate_wrap_modes [OF n1 p1] by (simp add: b)
  have g2: "generate sampleLib testGenerator ?s2
              = Inr (testGenerator\<lparr>buf := declsRequired sampleLib testGenerator ''errSome'' ?s2 ?t2\<rparr>)"
    using generate_wrap_modes [OF n2 p2] by (simp add: b)
  have g3: "generate sampleLib testGenerator ?s3
              = Inr (testGenerator\<lparr>buf := declsOptional sampleLib testGenerator ''errOpen'' ?s3 ?t3\<rparr>)"
    using generate_wrap_modes [OF n3 p3] by (simp add: b)
  show ?thesis
    unfolding g1 g2 g3 d1 d2 d3 by (intro conjI refl)
qed

subsection \<open>Wrap-mode prefixes\<close>

text \<open>
  Claim C2. A template that literally starts with \<open>wrap:\<close> is \<open>MustWrap\<close> with that prefix
  stripped once; one that starts with \<open>nowrap:\<close> is \<open>NoWrap\<close> with that prefix stripped; any
  other template is \<open>OptWrap\<close> and unchanged. \<open>parseTemplate\<close> records this mode and parses
  the stripped text.
\<close>

theorem wrapPrefix_modes:
  "(\<forall>r. tmpl = ''wrap:'' @ r \<longrightarrow> wrapPrefix tmpl = (MustWrap, r))
   \<and> (\<forall>r. tmpl = ''nowrap:'' @ r \<longrightarrow> wrapPrefix tmpl = (NoWrap, r))
   \<and> (\<not> prefix ''wrap:'' tmpl \<and> \<not> prefix ''nowrap:'' tmpl \<longrightarrow> wrapPrefix tmpl = (OptWrap, tmpl))
   \<and> (\<forall>pt. parseTemplate L tmpl = Inr pt \<longrightarrow>
         wrap pt = fst (wrapPrefix tmpl)
         \<and> parseMatches L (FindAllStringSubmatch tmplRE (snd (wrapPrefix tmpl))) []
              (snd (wrapPrefix tmpl)) = Inr (fields_T pt, fmt pt))"
proof -
  have 1: "\<forall>r. tmpl = ''wrap:'' @ r \<longrightarrow> wrapPrefix tmpl = (MustWrap, r)"
    by (simp add: wrapPrefix_def HasPrefix_def TrimPrefix_def)
  have 2: "\<forall>r. tmpl = ''nowrap:'' @ r \<longrightarrow> wrapPrefix tmpl = (NoWrap, r)"
    by (simp add: wrapPrefix_def HasPrefix_def TrimPrefix_def)
  have 3: "\<not> prefix ''wrap:'' tmpl \<and> \<not> prefix ''nowrap:'' tmpl \<longrightarrow> wrapPrefix tmpl = (OptWrap, tmpl)"
    by (simp add: wrapPrefix_def HasPrefix_iff)
  have 4: "\<forall>pt. parseTemplate L tmpl = Inr pt \<longrightarrow>
         wrap pt = fst (wrapPrefix tmpl)
         \<and> parseMatches L (FindAllStringSubmatch tmplRE (snd (wrapPrefix tmpl))) []
              (snd (wrapPrefix tmpl)) = Inr (fields_T pt, fmt pt)"
    by (auto simp: parseTemplate_def Let_def split: prod.splits sum.splits)
  from 1 2 3 4 show ?thesis by blast
qed

theorem wrapPrefix_modes_witness:
  "wrapPrefix ''wrap:some error'' = (MustWrap, ''some error'')
   \<and> wrapPrefix ''nowrap:some error'' = (NoWrap, ''some error'')
   \<and> wrapPrefix ''Wrap:some error'' = (OptWrap, ''Wrap:some error'')
   \<and> wrapPrefix '' wrap:some error'' = (OptWrap, '' wrap:some error'')
   \<and> wrapPrefix ''wrap:wrap:x'' = (MustWrap, ''wrap:x'')
   \<and> parseTemplate sampleLib ''wrap:some error'' = Inr \<lparr>wrap = MustWrap, fields_T = [], fmt = ''some error''\<rparr>
   \<and> parseMatches sampleLib (FindAllStringSubmatch tmplRE ''some error'') [] ''some error''
        = Inr ([], ''some error'')"
proof -
  have p: "parseTemplate sampleLib ''wrap:some error'' = Inr \<lparr>wrap = MustWrap, fields_T = [], fmt = ''some error''\<rparr>"
    by code_simp
  from wrapPrefix_modes [of "''wrap:some error''" sampleLib] p
  have a: "wrapPrefix ''wrap:some error'' = (MustWrap, ''some error'')"
     "parseMatches sampleLib (FindAllStringSubmatch tmplRE ''some error'') [] ''some error''
        = Inr ([], ''some error'')"
    by auto
  from wrapPrefix_modes [of "''nowrap:some error''" sampleLib]
  have b: "wrapPrefix ''nowrap:some error'' = (NoWrap, ''some error'')" by simp
  from wrapPrefix_modes [of "''Wrap:some error''" sampleLib]
  have c: "wrapPrefix ''Wrap:some error'' = (OptWrap, ''Wrap:some error'')" by simp
  from wrapPrefix_modes [of "'' wrap:some error''" sampleLib]
  have d: "wrapPrefix '' wrap:some error'' = (OptWrap, '' wrap:some error'')" by simp
  from wrapPrefix_modes [of "''wrap:wrap:x''" sampleLib]
  have e: "wrapPrefix ''wrap:wrap:x'' = (MustWrap, ''wrap:x'')" by simp
  from a b c d e p show ?thesis by simp
qed

subsection \<open>Formatting failure\<close>

text \<open>
  Claim C8: when formatting fails, the failure is a warning and the unformatted text is
  still returned, unless the unformatted text is empty. The source does not meet it:
  \<open>format\<close> tests and returns \<open>src\<close>, the bytes that came back from \<^verbatim>\<open>format.Source\<close>, not the
  buffer. \<^verbatim>\<open>format.Source\<close> returns no bytes with an error, and then \<open>format\<close> logs its
  two warnings, the second of which tells the user to compile the output, and ends the
  run on every buffer; the specification's wording returns the buffer whenever it is
  not empty.
\<close>

theorem format_failure_fatal:
  assumes "format_Source L (buf g) = ([], Some err)"
  shows "format L g
           = ([''warning: failed to format generated code: '' @ err @ NL,
               ''warning: try to compile the output to check the error'' @ NL],
              Inl (FatalEmptyFormat (buf g)))
         \<and> (buf g \<noteq> [] \<longrightarrow>
              spec_format L g
                = ([''warning: failed to format generated code: '' @ err @ NL,
                    ''warning: try to compile the output to check the error'' @ NL],
                   Inr (buf g)))"
  using assms by (simp add: format_def spec_format_def Let_def)

theorem format_failure_fatal_witness:
  "format_Source (sampleLib\<lparr>format_Source := (\<lambda>s. ([], Some ''1:9: expected IDENT, found EOF''))\<rparr>)
       (buf (testGenerator\<lparr>buf := ''package ''\<rparr>)) = ([], Some ''1:9: expected IDENT, found EOF'')
   \<and> snd (format (sampleLib\<lparr>format_Source := (\<lambda>s. ([], Some ''1:9: expected IDENT, found EOF''))\<rparr>)
            (testGenerator\<lparr>buf := ''package ''\<rparr>)) = Inl (FatalEmptyFormat ''package '')
   \<and> snd (spec_format (sampleLib\<lparr>format_Source := (\<lambda>s. ([], Some ''1:9: expected IDENT, found EOF''))\<rparr>)
            (testGenerator\<lparr>buf := ''package ''\<rparr>)) = Inr ''package ''"
proof -
  let ?L = "sampleLib\<lparr>format_Source := (\<lambda>s. ([], Some ''1:9: expected IDENT, found EOF''))\<rparr>"
  let ?g = "testGenerator\<lparr>buf := ''package ''\<rparr>"
  have h: "format_Source ?L (buf ?g) = ([], Some ''1:9: expected IDENT, found EOF'')"
    by simp
  have b: "buf ?g = ''package ''" by simp
  from format_failure_fatal [OF h] h b show ?thesis by simp
qed

subsection \<open>The compatibility switch\<close>

lemma structName_compatIs: "structName L (g\<lparr>compatIs := b\<rparr>) n = structName L g n"
  by (simp add: structName_def Let_def split: list.splits)

lemma genConstructor_compatIs: "genConstructor L (g\<lparr>compatIs := b\<rparr>) sName t = genConstructor L g sName t"
  by (simp add: genConstructor_def constPrefix_def)

lemma Printf_fields:
  "compatIs (Printf g a) = compatIs g" "typeName (Printf g a) = typeName g"
  "pkgName (Printf g a) = pkgName g" "imports_G (Printf g a) = imports_G g"
  "buf (Printf g a) = buf g @ a"
  by (simp_all add: Printf_def)

lemma foldl_Printf_fields:
  "compatIs (foldl (\<lambda>g imp. Printf g (f imp)) g xs) = compatIs g"
  "typeName (foldl (\<lambda>g imp. Printf g (f imp)) g xs) = typeName g"
  "buf (foldl (\<lambda>g imp. Printf g (f imp)) g xs) = buf g @ concat (map f xs)"
  by (induction xs arbitrary: g) (simp_all add: Printf_fields)

lemma header_buf:
  "buf (header L g)
     = buf g @ preambleHead L g @ (if compatIs g then sentinelStub g else chainSearch g)"
  by (simp add: header_def Let_def Printf_fields foldl_Printf_fields preambleHead_def
      sentinelStub_def chainSearch_def)

lemma preambleHead_compatIs: "preambleHead L (g\<lparr>compatIs := b\<rparr>) = preambleHead L g"
  by (simp add: preambleHead_def)

lemma chainSearch_compatIs: "chainSearch (g\<lparr>compatIs := b\<rparr>) = chainSearch g"
  by (simp add: chainSearch_def)

text \<open>
  Claim C3, as amended. With \<open>compatIs\<close> on, the identity predicate takes an \<^verbatim>\<open>error\<close>;
  the struct, the constructor, the \<^verbatim>\<open>Error\<close> method and the \<^verbatim>\<open>Wrap\<close> method appended to
  the buffer are the ones appended with the switch off, where only the predicate's
  parameter type differs. The preamble is the package clause, the imports and the cause
  holder followed by the stub \<^verbatim>\<open>Error\<close> method of the sentinel type, which panics, once
  and with nothing after it; with the switch off the chain search \<^verbatim>\<open>IsIn\<close> stands in the
  stub's place.
\<close>

theorem compatIs_switch:
  assumes "compatIs g" "structName L g (name spec) = Inr sName"
    "parseTemplate L (template spec) = Inr t"
  shows "generate L g spec
           = Inr (g\<lparr>buf := buf g @ genStruct sName t @ genConstructor L g sName t
                    @ genError sName t @ genWrap sName t
                    @ identityPredicate sName ''error'' (name spec)\<rparr>)
         \<and> generate L (g\<lparr>compatIs := False\<rparr>) spec
           = Inr (g\<lparr>compatIs := False,
                    buf := buf g @ genStruct sName t @ genConstructor L g sName t
                    @ genError sName t @ genWrap sName t
                    @ identityPredicate sName (typeName g) (name spec)\<rparr>)
         \<and> buf (header L g) = buf g @ preambleHead L g @ sentinelStub g
         \<and> buf (header L (g\<lparr>compatIs := False\<rparr>)) = buf g @ preambleHead L g @ chainSearch g"
proof -
  have 1: "generate L g spec
           = Inr (g\<lparr>buf := buf g @ genStruct sName t @ genConstructor L g sName t
                    @ genError sName t @ genWrap sName t
                    @ identityPredicate sName ''error'' (name spec)\<rparr>)"
    using generate_Inr [OF assms(2,3)] assms(1)
    by (simp add: genIs_identityPredicate identityParam_def Printf_def)
  have "structName L (g\<lparr>compatIs := False\<rparr>) (name spec) = Inr sName"
    using assms(2) by (simp add: structName_compatIs)
  from generate_Inr [OF this assms(3)]
  have 2: "generate L (g\<lparr>compatIs := False\<rparr>) spec
           = Inr (g\<lparr>compatIs := False,
                    buf := buf g @ genStruct sName t @ genConstructor L g sName t
                    @ genError sName t @ genWrap sName t
                    @ identityPredicate sName (typeName g) (name spec)\<rparr>)"
    by (simp add: genIs_identityPredicate identityParam_def genConstructor_compatIs Printf_def)
  have 3: "buf (header L g) = buf g @ preambleHead L g @ sentinelStub g"
    using assms(1) by (simp add: header_buf)
  have 4: "buf (header L (g\<lparr>compatIs := False\<rparr>)) = buf g @ preambleHead L g @ chainSearch g"
    by (simp add: header_buf preambleHead_compatIs chainSearch_compatIs)
  from 1 2 3 4 show ?thesis by blast
qed

theorem compatIs_switch_witness:
  "compatIs (testGenerator\<lparr>compatIs := True\<rparr>)
   \<and> buf (header sampleLib (testGenerator\<lparr>compatIs := True\<rparr>))
     = ''// Errors generated by Gorror; DO NOT EDIT.'' @ NL @ NL
       @ ''package test'' @ NL @ NL
       @ ''import ('' @ NL @ TAB @ DQ @ ''errors'' @ DQ @ NL @ TAB @ DQ @ ''fmt'' @ DQ @ NL
       @ '')'' @ NL @ NL
       @ ''type _errWrap struct{ cause error }'' @ NL
       @ ''func (w *_errWrap) Unwrap() error { return w.cause }'' @ NL @ NL
       @ ''func (Err) Error() string { panic('' @ DQ @ ''Should not be called'' @ DQ @ '') }''
       @ NL @ NL
   \<and> generate sampleLib testGenerator \<lparr>name = ''ErrOpen'', template = ''failed to open file''\<rparr>
     = Inr (testGenerator\<lparr>buf :=
         ''type errOpen struct {'' @ NL @ TAB @ ''_errWrap'' @ NL @ ''}'' @ NL @ NL
         @ ''func newErrOpen() *errOpen {'' @ NL
         @ TAB @ ''return &errOpen{_errWrap{nil}}'' @ NL @ ''}'' @ NL @ NL
         @ ''func (e *errOpen) Error() string {'' @ NL
         @ TAB @ ''if e.cause == nil {'' @ NL
         @ TAB @ TAB @ ''return fmt.Sprintf('' @ DQ @ ''failed to open file'' @ DQ @ '')'' @ NL
         @ TAB @ ''}'' @ NL
         @ TAB @ ''return fmt.Sprintf('' @ DQ @ ''failed to open file: %v'' @ DQ @ '', e.cause)'' @ NL
         @ ''}'' @ NL
         @ NL @ ''func (e *errOpen) Wrap(cause error) error {'' @ NL
         @ TAB @ ''e.cause = cause'' @ NL @ TAB @ ''return e'' @ NL @ ''}'' @ NL
         @ NL @ ''func (*errOpen) Is(e Err) bool { return e == ErrOpen }'' @ NL @ NL\<rparr>)"
proof -
  let ?g = "testGenerator\<lparr>compatIs := True\<rparr>"
  let ?s = "\<lparr>name = ''ErrOpen'', template = ''failed to open file''\<rparr>"
  let ?t = "\<lparr>wrap = OptWrap, fields_T = [], fmt = ''failed to open file''\<rparr>"
  have c: "compatIs ?g" by simp
  have n: "structName sampleLib ?g (name ?s) = Inr ''errOpen''" by code_simp
  have p: "parseTemplate sampleLib (template ?s) = Inr ?t" by code_simp
  note w = compatIs_switch [OF c n p]
  have h: "buf ?g @ preambleHead sampleLib ?g @ sentinelStub ?g
     = ''// Errors generated by Gorror; DO NOT EDIT.'' @ NL @ NL
       @ ''package test'' @ NL @ NL
       @ ''import ('' @ NL @ TAB @ DQ @ ''errors'' @ DQ @ NL @ TAB @ DQ @ ''fmt'' @ DQ @ NL
       @ '')'' @ NL @ NL
       @ ''type _errWrap struct{ cause error }'' @ NL
       @ ''func (w *_errWrap) Unwrap() error { return w.cause }'' @ NL @ NL
       @ ''func (Err) Error() string { panic('' @ DQ @ ''Should not be called'' @ DQ @ '') }''
       @ NL @ NL"
    by code_simp
  have d: "?g\<lparr>compatIs := False,
             buf := buf ?g @ genStruct ''errOpen'' ?t @ genConstructor sampleLib ?g ''errOpen'' ?t
                    @ genError ''errOpen'' ?t @ genWrap ''errOpen'' ?t
                    @ identityPredicate ''errOpen'' (typeName ?g) (name ?s)\<rparr>
     = testGenerator\<lparr>buf :=
         ''type errOpen struct {'' @ NL @ TAB @ ''_errWrap'' @ NL @ ''}'' @ NL @ NL
         @ ''func newErrOpen() *errOpen {'' @ NL
         @ TAB @ ''return &errOpen{_errWrap{nil}}'' @ NL @ ''}'' @ NL @ NL
         @ ''func (e *errOpen) Error() string {'' @ NL
         @ TAB @ ''if e.cause == nil {'' @ NL
         @ TAB @ TAB @ ''return fmt.Sprintf('' @ DQ @ ''failed to open file'' @ DQ @ '')'' @ NL
         @ TAB @ ''}'' @ NL
         @ TAB @ ''return fmt.Sprintf('' @ DQ @ ''failed to open file: %v'' @ DQ @ '', e.cause)'' @ NL
         @ ''}'' @ NL
         @ NL @ ''func (e *errOpen) Wrap(cause error) error {'' @ NL
         @ TAB @ ''e.cause = cause'' @ NL @ TAB @ ''return e'' @ NL @ ''}'' @ NL
         @ NL @ ''func (*errOpen) Is(e Err) bool { return e == ErrOpen }'' @ NL @ NL\<rparr>"
    by code_simp
  have off: "?g\<lparr>compatIs := False\<rparr> = testGenerator" by (simp add: testGenerator_def)
  from w have 1: "buf (header sampleLib ?g) = buf ?g @ preambleHead sampleLib ?g @ sentinelStub ?g"
    by blast
  from w have "generate sampleLib (?g\<lparr>compatIs := False\<rparr>) ?s
     = Inr (?g\<lparr>compatIs := False,
             buf := buf ?g @ genStruct ''errOpen'' ?t @ genConstructor sampleLib ?g ''errOpen'' ?t
                    @ genError ''errOpen'' ?t @ genWrap ''errOpen'' ?t
                    @ identityPredicate ''errOpen'' (typeName ?g) (name ?s)\<rparr>)"
    by blast
  then have 2: "generate sampleLib (?g\<lparr>compatIs := False\<rparr>) ?s
     = Inr (testGenerator\<lparr>buf :=
         ''type errOpen struct {'' @ NL @ TAB @ ''_errWrap'' @ NL @ ''}'' @ NL @ NL
         @ ''func newErrOpen() *errOpen {'' @ NL
         @ TAB @ ''return &errOpen{_errWrap{nil}}'' @ NL @ ''}'' @ NL @ NL
         @ ''func (e *errOpen) Error() string {'' @ NL
         @ TAB @ ''if e.cause == nil {'' @ NL
         @ TAB @ TAB @ ''return fmt.Sprintf('' @ DQ @ ''failed to open file'' @ DQ @ '')'' @ NL
         @ TAB @ ''}'' @ NL
         @ TAB @ ''return fmt.Sprintf('' @ DQ @ ''failed to open file: %v'' @ DQ @ '', e.cause)'' @ NL
         @ ''}'' @ NL
         @ NL @ ''func (e *errOpen) Wrap(cause error) error {'' @ NL
         @ TAB @ ''e.cause = cause'' @ NL @ TAB @ ''return e'' @ NL @ ''}'' @ NL
         @ NL @ ''func (*errOpen) Is(e Err) bool { return e == ErrOpen }'' @ NL @ NL\<rparr>)"
    unfolding d .
  show ?thesis
    using c 1 [unfolded h] 2 [unfolded off] by (intro conjI)
qed

text \<open>
  The claim as stated replaces the spec's \<^verbatim>\<open>Error\<close> method by a stub. With the switch on,
  the spec of the golden test \<open>simpleCompatIs\<close> still gets the method that formats the message.
\<close>

theorem compatIs_switch_counterexample:
  "generate sampleLib (testGenerator\<lparr>compatIs := True\<rparr>)
        \<lparr>name = ''ErrOpen'', template = ''failed to open file''\<rparr>
     = Inr (testGenerator\<lparr>compatIs := True, buf :=
         ''type errOpen struct {'' @ NL @ TAB @ ''_errWrap'' @ NL @ ''}'' @ NL @ NL
         @ ''func newErrOpen() *errOpen {'' @ NL
         @ TAB @ ''return &errOpen{_errWrap{nil}}'' @ NL @ ''}'' @ NL @ NL
         @ ''func (e *errOpen) Error() string {'' @ NL
         @ TAB @ ''if e.cause == nil {'' @ NL
         @ TAB @ TAB @ ''return fmt.Sprintf('' @ DQ @ ''failed to open file'' @ DQ @ '')'' @ NL
         @ TAB @ ''}'' @ NL
         @ TAB @ ''return fmt.Sprintf('' @ DQ @ ''failed to open file: %v'' @ DQ @ '', e.cause)'' @ NL
         @ ''}'' @ NL
         @ NL @ ''func (e *errOpen) Wrap(cause error) error {'' @ NL
         @ TAB @ ''e.cause = cause'' @ NL @ TAB @ ''return e'' @ NL @ ''}'' @ NL
         @ NL @ ''func (*errOpen) Is(e error) bool { return e == ErrOpen }'' @ NL @ NL\<rparr>)"
  by code_simp

subsection \<open>The placeholder pattern\<close>

lemma class_facts:
  "\<not> inClass accessorClass CHR '' ''" "\<not> inClass typeClass CHR '' ''"
  "\<not> inClass typeClass CHR ''*''" "\<not> inClass verbClass CHR ''}''"
  by (simp_all add: inClass_def accessorClass_def typeClass_def verbClass_def less_eq_char_def)

lemma concat_map_rev_upt:
  assumes "\<And>n. 1 \<le> n \<Longrightarrow> n < m \<Longrightarrow> f n = []"
  shows "concat (map f (rev [1..<Suc m])) = (if m = 0 then [] else f m)"
  using assms
proof (induction m)
  case 0
  show ?case by simp
next
  case (Suc m)
  have "concat (map f (rev [1..<Suc m])) = (if m = 0 then [] else f m)"
    using Suc by simp
  moreover have "m \<noteq> 0 \<Longrightarrow> f m = []" using Suc.prems [of m] by simp
  ultimately have "concat (map f (rev [1..<Suc m])) = []" by simp
  then show ?case by simp
qed

lemma drop_in_run:
  assumes "n < length (takeWhile P s)"
  shows "\<exists>x xs. drop n s = x # xs \<and> P x"
proof -
  from assms have n: "n < length s"
    using length_takeWhile_le [of P s] by simp
  have "P (takeWhile P s ! n)" using assms by (meson nth_mem set_takeWhileD)
  then have "P (s ! n)" using assms by (simp add: takeWhile_nth)
  moreover have "drop n s = s ! n # drop (Suc n) s" using n by (simp add: Cons_nth_drop_Suc)
  ultimately show ?thesis by blast
qed

lemma run_then:
  assumes K: "\<And>x xs c. P x \<Longrightarrow> K (x # xs, c) = []"
  shows "concat (map K (map (\<lambda>n. (drop n s, G n)) (rev [1..<Suc (length (takeWhile P s))])))
         = (if takeWhile P s = [] then []
            else K (dropWhile P s, G (length (takeWhile P s))))"
proof -
  have "concat (map (\<lambda>n. K (drop n s, G n)) (rev [1..<Suc (length (takeWhile P s))]))
        = (if length (takeWhile P s) = 0 then []
           else K (drop (length (takeWhile P s)) s, G (length (takeWhile P s))))"
  proof (rule concat_map_rev_upt)
    fix n assume "1 \<le> n" "n < length (takeWhile P s)"
    from drop_in_run [OF this(2)] K show "K (drop n s, G n) = []" by auto
  qed
  then show ?thesis by (simp add: comp_def dropWhile_eq_drop)
qed

lemma bt_Cat_Lit:
  "backtrack (Cat (Lit l) r) (s, c)
     = (case stripLit l s of None \<Rightarrow> [] | Some s' \<Rightarrow> backtrack r (s', c))"
  by (simp add: stripLit_def)

lemma bt_Lit:
  "backtrack (Lit l) (s, c) = (case stripLit l s of None \<Rightarrow> [] | Some s' \<Rightarrow> [(s', c)])"
  by (simp add: stripLit_def)

lemma bt_Cat_Lit_fails: "x \<noteq> d \<Longrightarrow> backtrack (Cat (Lit (d # l)) r) (x # xs, c) = []"
  by (simp add: HasPrefix_def)

lemma bt_Lit_fails: "x \<noteq> d \<Longrightarrow> backtrack (Lit (d # l)) (x # xs, c) = []"
  by (simp add: HasPrefix_def)

lemma bt_Cat_Group_Plus:
  assumes "\<And>x xs c. inClass cl x \<Longrightarrow> backtrack r (x # xs, c) = []"
  shows "backtrack (Cat (Group (Plus cl)) r) (s, c)
     = (case scanRun cl s of None \<Rightarrow> [] | Some (a, s') \<Rightarrow> backtrack r (s', c @ [a]))"
proof -
  let ?m = "length (takeWhile (inClass cl) s)"
  have g: "backtrack (Group (Plus cl)) (s, c)
         = map (\<lambda>n. (drop n s, c @ [take (length s - length (drop n s)) s])) (rev [1..<Suc ?m])"
    by (simp only: backtrack.simps map_map comp_def case_prod_conv)
  have "backtrack (Cat (Group (Plus cl)) r) (s, c)
         = concat (map (backtrack r) (map (\<lambda>n. (drop n s, c @ [take (length s - length (drop n s)) s]))
             (rev [1..<Suc ?m])))"
    unfolding backtrack.simps(4) g ..
  also have "\<dots> = (if takeWhile (inClass cl) s = [] then []
       else backtrack r (dropWhile (inClass cl) s,
              c @ [take (length s - length (drop ?m s)) s]))"
    by (rule run_then) (rule assms)
  also have "take (length s - length (drop ?m s)) s = takeWhile (inClass cl) s"
  proof -
    have "length s - length (drop ?m s) = ?m"
      using length_takeWhile_le [of "inClass cl" s] by simp
    then show ?thesis using takeWhile_eq_take [of "inClass cl" s] by simp
  qed
  finally show ?thesis by (simp add: scanRun_def)
qed

lemma bt_Cat_Group_verb:
  assumes "\<And>x xs c. inClass cl x \<Longrightarrow> backtrack r (x # xs, c) = []"
  shows "backtrack (Cat (Group (Cat (Lit ''%'') (Plus cl))) r) (s, c)
     = (case stripLit ''%'' s of None \<Rightarrow> []
        | Some s1 \<Rightarrow> (case scanRun cl s1 of None \<Rightarrow> []
                       | Some (v, s') \<Rightarrow> backtrack r (s', c @ [''%'' @ v])))"
proof (cases "stripLit ''%'' s")
  case None
  then have "\<not> HasPrefix s ''%''" by (simp add: stripLit_def split: if_splits)
  then show ?thesis using None by simp
next
  case (Some s1)
  then have s: "s = CHR ''%'' # s1"
    by (cases s) (auto simp: stripLit_def HasPrefix_def split: if_splits)
  let ?m = "length (takeWhile (inClass cl) s1)"
  let ?G = "\<lambda>n. c @ [take (length s - length (drop n s1)) s]"
  have g: "backtrack (Group (Cat (Lit ''%'') (Plus cl))) (s, c)
         = map (\<lambda>n. (drop n s1, ?G n)) (rev [1..<Suc ?m])"
    by (simp add: s HasPrefix_def comp_def del: upt_Suc)
  have "backtrack (Cat (Group (Cat (Lit ''%'') (Plus cl))) r) (s, c)
         = concat (map (backtrack r) (map (\<lambda>n. (drop n s1, ?G n)) (rev [1..<Suc ?m])))"
    unfolding backtrack.simps(4) [of "Group (Cat (Lit ''%'') (Plus cl))"] g ..
  also have "\<dots> = (if takeWhile (inClass cl) s1 = [] then []
       else backtrack r (dropWhile (inClass cl) s1, ?G ?m))"
    by (rule run_then) (rule assms)
  also have "?G ?m = c @ [''%'' @ takeWhile (inClass cl) s1]"
  proof -
    have "length s - length (drop ?m s1) = Suc ?m"
      using length_takeWhile_le [of "inClass cl" s1] by (simp add: s)
    then show ?thesis using takeWhile_eq_take [of "inClass cl" s1] by (simp add: s)
  qed
  finally show ?thesis using Some by (simp add: scanRun_def)
qed

lemma bt_Cat_Group_type:
  assumes "\<And>x xs c. inClass typeClass x \<Longrightarrow> backtrack r (x # xs, c) = []"
  shows "backtrack (Cat (Group (Cat (Opt (Lit ''*'')) (Plus typeClass))) r) (s, c)
     = (case scanType s of None \<Rightarrow> [] | Some (t, s') \<Rightarrow> backtrack r (s', c @ [t]))"
proof (cases "stripLit ''*'' s")
  case None
  let ?m = "length (takeWhile (inClass typeClass) s)"
  let ?G = "\<lambda>n. c @ [take (length s - length (drop n s)) s]"
  have g: "backtrack (Group (Cat (Opt (Lit ''*'')) (Plus typeClass))) (s, c)
         = map (\<lambda>n. (drop n s, ?G n)) (rev [1..<Suc ?m])"
    using None by (simp add: stripLit_def comp_def del: upt_Suc split: if_splits)
  have "backtrack (Cat (Group (Cat (Opt (Lit ''*'')) (Plus typeClass))) r) (s, c)
         = concat (map (backtrack r) (map (\<lambda>n. (drop n s, ?G n)) (rev [1..<Suc ?m])))"
    unfolding backtrack.simps(4) [of "Group (Cat (Opt (Lit ''*'')) (Plus typeClass))"] g ..
  also have "\<dots> = (if takeWhile (inClass typeClass) s = [] then []
       else backtrack r (dropWhile (inClass typeClass) s, ?G ?m))"
    by (rule run_then) (rule assms)
  also have "?G ?m = c @ [takeWhile (inClass typeClass) s]"
  proof -
    have "length s - length (drop ?m s) = ?m"
      using length_takeWhile_le [of "inClass typeClass" s] by simp
    then show ?thesis using takeWhile_eq_take [of "inClass typeClass" s] by simp
  qed
  finally show ?thesis using None by (simp add: scanType_def scanRun_def)
next
  case (Some s1)
  then have s: "s = CHR ''*'' # s1"
    by (cases s) (auto simp: stripLit_def HasPrefix_def split: if_splits)
  let ?m = "length (takeWhile (inClass typeClass) s1)"
  let ?G = "\<lambda>n. c @ [take (length s - length (drop n s1)) s]"
  have t0: "takeWhile (inClass typeClass) s = []"
    by (simp add: s class_facts)
  have g: "backtrack (Group (Cat (Opt (Lit ''*'')) (Plus typeClass))) (s, c)
         = map (\<lambda>n. (drop n s1, ?G n)) (rev [1..<Suc ?m])"
    using t0 by (simp add: s HasPrefix_def comp_def del: upt_Suc)
  have "backtrack (Cat (Group (Cat (Opt (Lit ''*'')) (Plus typeClass))) r) (s, c)
         = concat (map (backtrack r) (map (\<lambda>n. (drop n s1, ?G n)) (rev [1..<Suc ?m])))"
    unfolding backtrack.simps(4) [of "Group (Cat (Opt (Lit ''*'')) (Plus typeClass))"] g ..
  also have "\<dots> = (if takeWhile (inClass typeClass) s1 = [] then []
       else backtrack r (dropWhile (inClass typeClass) s1, ?G ?m))"
    by (rule run_then) (rule assms)
  also have "?G ?m = c @ [''*'' @ takeWhile (inClass typeClass) s1]"
  proof -
    have "length s - length (drop ?m s1) = Suc ?m"
      using length_takeWhile_le [of "inClass typeClass" s1] by (simp add: s)
    then show ?thesis using takeWhile_eq_take [of "inClass typeClass" s1] by (simp add: s)
  qed
  finally show ?thesis using Some by (simp add: scanType_def scanRun_def)
qed

lemma matchAt_scanPlaceholder: "matchAt tmplRE s = scanPlaceholder s"
proof -
  have k6: "\<And>x xs c. inClass verbClass x \<Longrightarrow> backtrack (Lit ''}}'') (x # xs, c) = []"
    using class_facts by (intro bt_Lit_fails) auto
  have k4: "\<And>r x xs c. inClass typeClass x \<Longrightarrow> backtrack (Cat (Lit '' '') r) (x # xs, c) = []"
    using class_facts by (intro bt_Cat_Lit_fails) auto
  have k2: "\<And>r x xs c. inClass accessorClass x \<Longrightarrow> backtrack (Cat (Lit '' '') r) (x # xs, c) = []"
    using class_facts by (intro bt_Cat_Lit_fails) auto
  show ?thesis
    unfolding matchAt_def tmplRE_def scanPlaceholder_def
    by (simp only: bt_Cat_Lit bt_Cat_Group_Plus [OF k2] bt_Cat_Group_type [OF k4]
          bt_Cat_Group_verb [OF k6] bt_Lit)
       (simp split: option.splits)
qed

lemma stripLit_append: "stripLit l (l @ r) = Some r"
  by (simp add: stripLit_def HasPrefix_def)

lemma stripLit_Some: "stripLit l s = Some s' \<Longrightarrow> s = l @ s'"
  by (auto simp: stripLit_def HasPrefix_def split: if_splits) (metis append_take_drop_id)

lemma scanRun_Some:
  assumes "scanRun cl s = Some (a, s')"
  shows "class_run cl a \<and> s = a @ s'"
proof -
  from assms have a: "a = takeWhile (inClass cl) s" "s' = dropWhile (inClass cl) s" "a \<noteq> []"
    by (auto simp: scanRun_def split: if_splits)
  have "list_all (inClass cl) a" unfolding a(1) list_all_iff by (auto dest: set_takeWhileD)
  with a show ?thesis by (simp add: class_run_def)
qed

lemma scanRun_append:
  assumes "class_run cl a" "\<not> inClass cl x"
  shows "scanRun cl (a @ x # r) = Some (a, x # r)"
proof -
  from assms(1) have all: "\<And>y. y \<in> set a \<Longrightarrow> inClass cl y" and ne: "a \<noteq> []"
    by (auto simp: class_run_def list_all_iff)
  have "takeWhile (inClass cl) (a @ x # r) = a" "dropWhile (inClass cl) (a @ x # r) = x # r"
    using all assms(2) by (simp_all add: takeWhile_append2 dropWhile_append2)
  with ne show ?thesis by (simp add: scanRun_def)
qed

lemma scanType_Some:
  assumes "scanType s = Some (t, s')"
  shows "pattern_type t \<and> s = t @ s'"
proof (cases "stripLit ''*'' s")
  case None
  with assms have "scanRun typeClass s = Some (t, s')" by (simp add: scanType_def)
  from scanRun_Some [OF this] show ?thesis by (simp add: pattern_type_def)
next
  case (Some s1)
  with assms obtain u where u: "scanRun typeClass s1 = Some (u, s')" "t = ''*'' @ u"
    by (auto simp: scanType_def split: option.splits)
  from scanRun_Some [OF u(1)] stripLit_Some [OF Some] u(2) show ?thesis
    by (auto simp: pattern_type_def)
qed

lemma class_run_hd: "class_run cl a \<Longrightarrow> \<exists>y ys. a = y # ys \<and> inClass cl y"
  by (cases a) (auto simp: class_run_def)

lemma scanType_append:
  assumes "pattern_type t"
  shows "scanType (t @ CHR '' '' # r) = Some (t, CHR '' '' # r)"
proof -
  from assms consider (plain) "class_run typeClass t"
    | (ptr) u where "t = ''*'' @ u" "class_run typeClass u"
    by (auto simp: pattern_type_def)
  then show ?thesis
  proof cases
    case plain
    from class_run_hd [OF plain] obtain y ys where y: "t = y # ys" "inClass typeClass y" by blast
    then have "y \<noteq> CHR ''*''" using class_facts by auto
    then have "stripLit ''*'' (t @ CHR '' '' # r) = None"
      by (simp add: y stripLit_def HasPrefix_def)
    then show ?thesis
      using scanRun_append [OF plain class_facts(2), of r] by (simp add: scanType_def)
  next
    case ptr
    have "stripLit ''*'' (t @ CHR '' '' # r) = Some (u @ CHR '' '' # r)"
      using stripLit_append [of "''*''" "u @ CHR '' '' # r"] by (simp add: ptr(1))
    then show ?thesis
      using scanRun_append [OF ptr(2) class_facts(2), of r] by (simp add: scanType_def ptr(1))
  qed
qed

lemma take_token: "s = x @ y \<Longrightarrow> take (length s - length y) s = x"
  by simp

lemma scanPlaceholder_Some:
  assumes "scanPlaceholder s = Some (m, rest)"
  shows "\<exists>a t v. class_run accessorClass a \<and> pattern_type t \<and> pattern_verb v
           \<and> m = [''{{'' @ a @ '' '' @ t @ '' '' @ v @ ''}}'', a, t, v]
           \<and> s = ''{{'' @ a @ '' '' @ t @ '' '' @ v @ ''}}'' @ rest"
proof -
  from assms obtain s1 a s2 s3 t s4 s5 s6 u s7 where
    1: "stripLit ''{{'' s = Some s1" and 2: "scanRun accessorClass s1 = Some (a, s2)"
    and 3: "stripLit '' '' s2 = Some s3" and 4: "scanType s3 = Some (t, s4)"
    and 5: "stripLit '' '' s4 = Some s5" and 6: "stripLit ''%'' s5 = Some s6"
    and 7: "scanRun verbClass s6 = Some (u, s7)" and 8: "stripLit ''}}'' s7 = Some rest"
    and m: "m = [take (length s - length rest) s, a, t, ''%'' @ u]"
    by (auto simp: scanPlaceholder_def split: option.splits)
  have s: "s = ''{{'' @ a @ '' '' @ t @ '' '' @ (''%'' @ u) @ ''}}'' @ rest"
    using stripLit_Some [OF 1] scanRun_Some [OF 2] stripLit_Some [OF 3] scanType_Some [OF 4]
      stripLit_Some [OF 5] stripLit_Some [OF 6] scanRun_Some [OF 7] stripLit_Some [OF 8]
    by simp
  have "take (length s - length rest) s = ''{{'' @ a @ '' '' @ t @ '' '' @ (''%'' @ u) @ ''}}''"
    by (rule take_token) (simp add: s)
  moreover have "pattern_verb (''%'' @ u)"
    using scanRun_Some [OF 7] by (simp add: pattern_verb_def)
  ultimately show ?thesis
    using m s scanRun_Some [OF 2] scanType_Some [OF 4] by blast
qed

lemma scanPlaceholder_token:
  assumes "class_run accessorClass a" "pattern_type t" "pattern_verb v"
  shows "scanPlaceholder (''{{'' @ a @ '' '' @ t @ '' '' @ v @ ''}}'' @ rest)
           = Some ([''{{'' @ a @ '' '' @ t @ '' '' @ v @ ''}}'', a, t, v], rest)"
proof -
  from assms(3) obtain u where v: "v = ''%'' @ u" and u: "class_run verbClass u"
    by (auto simp: pattern_verb_def)
  define s7 where "s7 = CHR ''}'' # CHR ''}'' # rest"
  define s6 where "s6 = u @ s7"
  define s5 where "s5 = ''%'' @ s6"
  define s4 where "s4 = CHR '' '' # s5"
  define s3 where "s3 = t @ s4"
  define s2 where "s2 = CHR '' '' # s3"
  define s1 where "s1 = a @ s2"
  define s0 where "s0 = ''{{'' @ s1"
  have 1: "stripLit ''{{'' s0 = Some s1"
    unfolding s0_def by (rule stripLit_append)
  have 2: "scanRun accessorClass s1 = Some (a, s2)"
    unfolding s1_def s2_def by (rule scanRun_append [OF assms(1) class_facts(1)])
  have 3: "stripLit '' '' s2 = Some s3"
    using stripLit_append [of "'' ''" s3] by (simp add: s2_def)
  have 4: "scanType s3 = Some (t, s4)"
    unfolding s3_def s4_def by (rule scanType_append [OF assms(2)])
  have 5: "stripLit '' '' s4 = Some s5"
    using stripLit_append [of "'' ''" s5] by (simp add: s4_def)
  have 6: "stripLit ''%'' s5 = Some s6"
    unfolding s5_def by (rule stripLit_append)
  have 7: "scanRun verbClass s6 = Some (u, s7)"
    unfolding s6_def s7_def by (rule scanRun_append [OF u class_facts(4)])
  have 8: "stripLit ''}}'' s7 = Some rest"
    using stripLit_append [of "''}}''" rest] by (simp add: s7_def)
  have e: "s0 = (''{{'' @ a @ '' '' @ t @ '' '' @ v @ ''}}'') @ rest"
    by (simp add: s0_def s1_def s2_def s3_def s4_def s5_def s6_def s7_def v)
  have 9: "take (length s0 - length rest) s0 = ''{{'' @ a @ '' '' @ t @ '' '' @ v @ ''}}''"
    by (rule take_token [OF e])
  have "scanPlaceholder s0 = Some ([''{{'' @ a @ '' '' @ t @ '' '' @ v @ ''}}'', a, t, v], rest)"
    by (simp add: scanPlaceholder_def 1 2 3 4 5 6 7 8 9 v del: append.simps)
  then show ?thesis by (simp add: e)
qed

lemma matchAt_tmplRE_iff:
  "matchAt tmplRE s = Some (m, rest) \<longleftrightarrow>
     (\<exists>a t v. class_run accessorClass a \<and> pattern_type t \<and> pattern_verb v
           \<and> m = [''{{'' @ a @ '' '' @ t @ '' '' @ v @ ''}}'', a, t, v]
           \<and> s = ''{{'' @ a @ '' '' @ t @ '' '' @ v @ ''}}'' @ rest)"
  unfolding matchAt_scanPlaceholder
  using scanPlaceholder_Some [of s m rest] scanPlaceholder_token by blast

lemma matchAt_tmplRE_Nil: "matchAt tmplRE [] = None"
  by (simp add: matchAt_scanPlaceholder scanPlaceholder_def stripLit_def HasPrefix_def)

lemma matchAt_tmplRE_progress:
  assumes "matchAt tmplRE s = Some (m, rest)"
  shows "length rest < length s \<and> length m = 4"
proof -
  from assms obtain a t v where
    "m = [''{{'' @ a @ '' '' @ t @ '' '' @ v @ ''}}'', a, t, v]"
    "s = ''{{'' @ a @ '' '' @ t @ '' '' @ v @ ''}}'' @ rest"
    unfolding matchAt_tmplRE_iff by blast
  then show ?thesis by simp
qed

lemma FindAll_tmplRE_length:
  "m \<in> set (FindAllStringSubmatch tmplRE s) \<Longrightarrow> length m = 4"
proof (induction tmplRE s rule: FindAllStringSubmatch.induct)
  case 1
  then show ?case by (simp add: matchAt_tmplRE_Nil)
next
  case (2 c s)
  show ?case
  proof (cases "matchAt tmplRE (c # s)")
    case None
    with 2 show ?thesis by simp
  next
    case (Some mr)
    obtain m' rest where mr: "mr = (m', rest)" by (cases mr)
    from matchAt_tmplRE_progress [of "c # s" m' rest] Some mr
    have p: "length rest < length (c # s)" "length m' = 4" by simp_all
    with 2 Some mr show ?thesis by auto
  qed
qed

lemma ident_chars:
  "ident_start c \<Longrightarrow> inClass accessorClass c \<and> inClass typeClass c"
  "ascii_digit c \<Longrightarrow> inClass accessorClass c \<and> inClass typeClass c"
  by (auto simp: ident_start_def ascii_digit_def inClass_def accessorClass_def typeClass_def)

lemma punct_chars:
  "inClass accessorClass CHR ''.''" "inClass accessorClass CHR ''[''"
  "inClass accessorClass CHR '']''" "inClass typeClass CHR ''.''"
  by (simp_all add: inClass_def accessorClass_def typeClass_def)

lemma spec_ident_run:
  assumes "spec_ident i"
  shows "class_run accessorClass i \<and> class_run typeClass i"
proof -
  from assms obtain c cs where i: "i = c # cs" and c: "ident_start c"
    and cs: "list_all (\<lambda>d. ident_start d \<or> ascii_digit d) cs"
    by (auto simp: spec_ident_def split: list.splits)
  from cs have "list_all (inClass accessorClass) cs \<and> list_all (inClass typeClass) cs"
    using ident_chars by (auto simp: list_all_iff)
  with c i ident_chars(1) show ?thesis by (simp add: class_run_def)
qed

lemma spec_digits_run: "spec_digits d \<Longrightarrow> class_run accessorClass d"
  using ident_chars(2) by (auto simp: spec_digits_def class_run_def list_all_iff)

lemma spec_accessor_run: "spec_accessor a \<Longrightarrow> class_run accessorClass a"
proof (induction rule: spec_accessor.induct)
  case (acc_ident i)
  then show ?case by (simp add: spec_ident_run)
next
  case (acc_field a i)
  then show ?case
    using spec_ident_run [of i] by (simp add: class_run_def punct_chars)
next
  case (acc_index a d)
  then show ?case
    using spec_digits_run [of d] by (simp add: class_run_def punct_chars)
qed

lemma spec_accessor_start: "spec_accessor a \<Longrightarrow> \<exists>c cs. a = c # cs \<and> ident_start c"
  by (induction rule: spec_accessor.induct) (auto simp: spec_ident_def split: list.splits)

lemma spec_type_pattern: "spec_type t \<Longrightarrow> pattern_type t"
proof (induction rule: spec_type.induct)
  case (typ_plain i)
  then show ?case by (simp add: pattern_type_def spec_ident_run)
next
  case (typ_qualified p i)
  then have "class_run typeClass (p @ ''.'' @ i)"
    using spec_ident_run [of p] spec_ident_run [of i] by (simp add: class_run_def punct_chars)
  then show ?case by (simp add: pattern_type_def)
next
  case (typ_pointer i)
  then show ?case using spec_ident_run [of i] by (auto simp: pattern_type_def)
next
  case (typ_pointer_qualified p i)
  then have "class_run typeClass (p @ ''.'' @ i)"
    using spec_ident_run [of p] spec_ident_run [of i] by (simp add: class_run_def punct_chars)
  then show ?case by (auto simp: pattern_type_def)
qed

lemma spec_verb_pattern: "spec_verb v \<Longrightarrow> pattern_verb v"
  by (cases v) (auto simp: spec_verb_def pattern_verb_def class_run_def)

lemma FindAll_single_token:
  assumes "matchAt re tok = Some (m, [])" "matchAt re [] = None"
  shows "FindAllStringSubmatch re tok = [m]"
  using assms by (cases tok) auto

text \<open>
  Claim C5, as amended. Every token \<^verbatim>\<open>{{accessor type verb}}\<close> that fits the grammar of
  section 6 is matched by the pattern, whatever follows it, with the accessor, the type
  and the verb as its three submatches. The pattern matches at the head of a text exactly
  when the text starts with \<^verbatim>\<open>{{a t v}}\<close> where \<open>a\<close> is a non-empty run over
  \<^verbatim>\<open>[A-Za-z0-9_.\[\]]\<close>, \<open>t\<close> is an optional \<^verbatim>\<open>*\<close> and a non-empty run over \<^verbatim>\<open>[A-Za-z0-9_.]\<close>,
  and \<open>v\<close> is \<^verbatim>\<open>%\<close> and a non-empty run over \<^verbatim>\<open>[A-Za-z0-9#.+]\<close>: a shape wider than
  the grammar.
\<close>

theorem tmplRE_placeholders:
  "(\<forall>tok a t v rest. spec_placeholder tok a t v \<longrightarrow>
       matchAt tmplRE (tok @ rest) = Some ([tok, a, t, v], rest)
       \<and> FindAllStringSubmatch tmplRE tok = [[tok, a, t, v]])
   \<and> (matchAt tmplRE s = Some (m, rest) \<longleftrightarrow>
       (\<exists>a t v. class_run accessorClass a \<and> pattern_type t \<and> pattern_verb v
           \<and> m = [''{{'' @ a @ '' '' @ t @ '' '' @ v @ ''}}'', a, t, v]
           \<and> s = ''{{'' @ a @ '' '' @ t @ '' '' @ v @ ''}}'' @ rest))"
proof -
  have 1: "matchAt tmplRE (tok @ rest) = Some ([tok, a, t, v], rest)
           \<and> FindAllStringSubmatch tmplRE tok = [[tok, a, t, v]]"
    if "spec_placeholder tok a t v" for tok a t v rest
  proof -
    from that have tok: "tok = ''{{'' @ a @ '' '' @ t @ '' '' @ v @ ''}}''"
      and a: "spec_accessor a" and t: "spec_type t" and v: "spec_verb v"
      by (auto elim: spec_placeholder.cases)
    have m: "matchAt tmplRE (tok @ r) = Some ([tok, a, t, v], r)" for r
      using scanPlaceholder_token [OF spec_accessor_run [OF a] spec_type_pattern [OF t]
          spec_verb_pattern [OF v], of r]
      by (simp add: matchAt_scanPlaceholder tok)
    from m [of "[]"] have "FindAllStringSubmatch tmplRE tok = [[tok, a, t, v]]"
      by (intro FindAll_single_token) (simp_all add: matchAt_tmplRE_Nil)
    with m [of rest] show ?thesis by simp
  qed
  from 1 matchAt_tmplRE_iff [of s m rest] show ?thesis by blast
qed

lemma complexField_placeholder:
  "spec_placeholder ''{{c.Field[0] MyStruct %s}}'' ''c.Field[0]'' ''MyStruct'' ''%s''"
proof -
  have c: "spec_accessor ''c''" by (rule acc_ident) (simp add: spec_ident_def ident_start_def)
  have "spec_accessor (''c'' @ ''.'' @ ''Field'')"
    by (rule acc_field [OF c]) (simp add: spec_ident_def ident_start_def)
  then have "spec_accessor ((''c'' @ ''.'' @ ''Field'') @ ''['' @ ''0'' @ '']'')"
    by (rule acc_index) (simp add: spec_digits_def ascii_digit_def)
  then have a: "spec_accessor ''c.Field[0]''" by simp
  have t: "spec_type ''MyStruct''"
    by (rule typ_plain) (simp add: spec_ident_def ident_start_def)
  have v: "spec_verb ''%s''"
    by (simp add: spec_verb_def inClass_def verbClass_def)
  from placeholder [OF a t v] show ?thesis by simp
qed

theorem tmplRE_placeholders_witness:
  "spec_placeholder ''{{c.Field[0] MyStruct %s}}'' ''c.Field[0]'' ''MyStruct'' ''%s''
   \<and> matchAt tmplRE ''{{c.Field[0] MyStruct %s}}: done''
        = Some ([''{{c.Field[0] MyStruct %s}}'', ''c.Field[0]'', ''MyStruct'', ''%s''], '': done'')
   \<and> FindAllStringSubmatch tmplRE ''{{c.Field[0] MyStruct %s}}''
        = [[''{{c.Field[0] MyStruct %s}}'', ''c.Field[0]'', ''MyStruct'', ''%s'']]"
proof -
  note p = complexField_placeholder
  from tmplRE_placeholders [of "[]" "[]" "[]"]
  have "\<forall>tok a t v rest. spec_placeholder tok a t v \<longrightarrow>
       matchAt tmplRE (tok @ rest) = Some ([tok, a, t, v], rest)
       \<and> FindAllStringSubmatch tmplRE tok = [[tok, a, t, v]]"
    by blast
  with p have "matchAt tmplRE (''{{c.Field[0] MyStruct %s}}'' @ '': done'')
        = Some ([''{{c.Field[0] MyStruct %s}}'', ''c.Field[0]'', ''MyStruct'', ''%s''], '': done'')
     \<and> FindAllStringSubmatch tmplRE ''{{c.Field[0] MyStruct %s}}''
        = [[''{{c.Field[0] MyStruct %s}}'', ''c.Field[0]'', ''MyStruct'', ''%s'']]"
    by blast
  with p show ?thesis by (simp del: FindAllStringSubmatch.simps)
qed

text \<open>
  The claim as stated has every matched string fit the grammar. The pattern matches a
  token whose accessor is \<^verbatim>\<open>][\<close> and whose type is \<^verbatim>\<open>a.b.c\<close>; no split of that token fits
  the grammar.
\<close>

theorem tmplRE_placeholders_counterexample:
  "matchAt tmplRE ''{{][ a.b.c %d}}'' = Some ([''{{][ a.b.c %d}}'', '']['', ''a.b.c'', ''%d''], [])
   \<and> \<not> spec_accessor '']['' 
   \<and> \<not> (\<exists>a t v. spec_placeholder ''{{][ a.b.c %d}}'' a t v)"
proof -
  have 1: "matchAt tmplRE ''{{][ a.b.c %d}}'' = Some ([''{{][ a.b.c %d}}'', '']['', ''a.b.c'', ''%d''], [])"
    by code_simp
  have 2: "\<not> spec_accessor ''][''"
    using spec_accessor_start [of "''][''"] by (auto simp: ident_start_def)
  have 3: "\<not> (\<exists>a t v. spec_placeholder ''{{][ a.b.c %d}}'' a t v)"
  proof
    assume "\<exists>a t v. spec_placeholder ''{{][ a.b.c %d}}'' a t v"
    then obtain a t v where e: "''{{][ a.b.c %d}}'' = ''{{'' @ a @ '' '' @ t @ '' '' @ v @ ''}}''"
      and a: "spec_accessor a"
      by (auto elim: spec_placeholder.cases)
    from spec_accessor_start [OF a] obtain c cs where c: "a = c # cs" "ident_start c" by blast
    with e have "c = CHR '']''" by simp
    with c(2) show False by (simp add: ident_start_def less_eq_char_def)
  qed
  from 1 2 3 show ?thesis by blast
qed

subsection \<open>Field names and fatal accessors\<close>

lemma findExprRoot_iff: "findExprRoot e = Some n \<longleftrightarrow> rooted_at n e"
proof
  show "findExprRoot e = Some n \<Longrightarrow> rooted_at n e"
    by (induction e rule: findExprRoot.induct) (auto intro: rooted_at.intros)
  show "rooted_at n e \<Longrightarrow> findExprRoot e = Some n"
    by (induction rule: rooted_at.induct) auto
qed

lemma findExprRoot_None_iff: "findExprRoot e = None \<longleftrightarrow> (\<forall>n. \<not> rooted_at n e)"
  using findExprRoot_iff [of e] by (cases "findExprRoot e") auto

lemma parseMatches_Inr:
  assumes "parseMatches L ms flds str = Inr (flds', str')"
  shows "\<exists>new. flds' = flds @ new
           \<and> list_all2 (\<lambda>m f. \<exists>e. ParseExpr L (m ! 1) = Inr e \<and> findExprRoot e = Some (name_F f)
                 \<and> typ_F f = m ! 2 \<and> fmt_F f = m ! 3 \<and> val f = m ! 1) ms new"
  using assms
proof (induction ms arbitrary: flds str)
  case Nil
  then show ?case by simp
next
  case (Cons m ms)
  from Cons.prems obtain e n where e: "ParseExpr L (m ! 1) = Inr e" "findExprRoot e = Some n"
    and rec: "parseMatches L ms (flds @ [\<lparr>name_F = n, typ_F = m ! 2, fmt_F = m ! 3, val = m ! 1\<rparr>])
                (Replace1 str (m ! 0) (m ! 3)) = Inr (flds', str')"
    by (auto simp: Let_def split: sum.splits option.splits)
  from Cons.IH [OF rec] obtain new where
    new: "flds' = (flds @ [\<lparr>name_F = n, typ_F = m ! 2, fmt_F = m ! 3, val = m ! 1\<rparr>]) @ new"
      "list_all2 (\<lambda>m f. \<exists>e. ParseExpr L (m ! 1) = Inr e \<and> findExprRoot e = Some (name_F f)
                 \<and> typ_F f = m ! 2 \<and> fmt_F f = m ! 3 \<and> val f = m ! 1) ms new"
    by blast
  let ?f = "\<lparr>name_F = n, typ_F = m ! 2, fmt_F = m ! 3, val = m ! 1\<rparr>"
  have "flds' = flds @ (?f # new)" using new(1) by simp
  moreover have "list_all2 (\<lambda>m f. \<exists>e. ParseExpr L (m ! 1) = Inr e \<and> findExprRoot e = Some (name_F f)
                 \<and> typ_F f = m ! 2 \<and> fmt_F f = m ! 3 \<and> val f = m ! 1) (m # ms) (?f # new)"
    using e new(2) by simp
  ultimately show ?case by blast
qed

lemma parseMatches_Inl:
  assumes "\<exists>m\<in>set ms. (\<exists>err. ParseExpr L (m ! 1) = Inl err)
             \<or> (\<exists>e. ParseExpr L (m ! 1) = Inr e \<and> findExprRoot e = None)"
  shows "\<exists>f. parseMatches L ms flds str = Inl f
           \<and> ((\<exists>err. f = FatalParseExpr err) \<or> (\<exists>a. f = FatalNoRoot a))"
  using assms
proof (induction ms arbitrary: flds str)
  case Nil
  then show ?case by simp
next
  case (Cons m ms)
  show ?case
  proof (cases "ParseExpr L (m ! 1)")
    case (Inl err)
    then show ?thesis by (simp add: Let_def)
  next
    case (Inr e)
    show ?thesis
    proof (cases "findExprRoot e")
      case None
      with Inr show ?thesis by (simp add: Let_def)
    next
      case (Some n)
      with Inr Cons.prems have "\<exists>m\<in>set ms. (\<exists>err. ParseExpr L (m ! 1) = Inl err)
             \<or> (\<exists>e. ParseExpr L (m ! 1) = Inr e \<and> findExprRoot e = None)"
        by auto
      from Cons.IH [OF this] Inr Some show ?thesis by (simp add: Let_def)
    qed
  qed
qed

lemma generate_parse_failure:
  "parseTemplate L (template spec) = Inl f \<Longrightarrow> \<exists>f'. generate L g spec = Inl f'"
  by (cases "structName L g (name spec)") (simp_all add: generate_def)

lemma generateAll_parse_failure:
  assumes "\<exists>spec\<in>set errs. \<exists>f. parseTemplate L (template spec) = Inl f"
  shows "\<exists>f'. generateAll L g errs = Inl f'"
  using assms
proof (induction errs arbitrary: g)
  case Nil
  then show ?case by simp
next
  case (Cons err errs)
  show ?case
  proof (cases "generate L g err")
    case (Inl e)
    then show ?thesis by simp
  next
    case (Inr g')
    then have "\<not> (\<exists>f. parseTemplate L (template err) = Inl f)"
      using generate_parse_failure [of L err _ g] by auto
    with Cons.prems have "\<exists>spec\<in>set errs. \<exists>f. parseTemplate L (template spec) = Inl f" by auto
    from Cons.IH [OF this, of g'] Inr show ?thesis by simp
  qed
qed

lemma mainRun_parse_failure:
  assumes "spec \<in> set (specs g)" "parseTemplate L (template spec) = Inl f"
  shows "\<exists>f'. mainRun L g = Inl f'"
proof -
  from assms(1) have "\<not> length (specs g) < 1" by (cases "specs g") auto
  moreover from generateAll_parse_failure [of "specs g" L "header L g"] assms
  obtain f' where "generateAll L (header L g) (specs g) = Inl f'" by blast
  ultimately show ?thesis by (simp add: mainRun_def)
qed

text \<open>
  Claim C7. When \<open>parseTemplate\<close> returns, its fields correspond one to one, in order, to
  the placeholder matches, and the name of each field is the root identifier of the
  parsed accessor, reached through selector and index steps. When the accessor of some
  match does not parse, or parses to an expression without identifier root,
  \<open>parseTemplate\<close> fails fatally, and so do \<open>generate\<close> on a spec with that template and the
  run over any list of specs that holds it: nothing is emitted.
\<close>

theorem parseTemplate_field_roots:
  "(\<forall>pt. parseTemplate L tmpl = Inr pt \<longrightarrow>
       list_all2 (\<lambda>m f. \<exists>e. ParseExpr L (m ! 1) = Inr e \<and> rooted_at (name_F f) e
                    \<and> findExprRoot e = Some (name_F f)
                    \<and> typ_F f = m ! 2 \<and> fmt_F f = m ! 3 \<and> val f = m ! 1)
         (FindAllStringSubmatch tmplRE (snd (wrapPrefix tmpl))) (fields_T pt))
   \<and> ((\<exists>m\<in>set (FindAllStringSubmatch tmplRE (snd (wrapPrefix tmpl))).
          (\<exists>err. ParseExpr L (m ! 1) = Inl err)
          \<or> (\<exists>e. ParseExpr L (m ! 1) = Inr e \<and> (\<forall>n. \<not> rooted_at n e)))
        \<longrightarrow> (\<exists>f. parseTemplate L tmpl = Inl f
                 \<and> ((\<exists>err. f = FatalParseExpr err) \<or> (\<exists>a. f = FatalNoRoot a)))
            \<and> (\<forall>g spec. template spec = tmpl \<longrightarrow> (\<exists>f. generate L g spec = Inl f))
            \<and> (\<forall>g spec. template spec = tmpl \<and> spec \<in> set (specs g)
                  \<longrightarrow> (\<exists>f. mainRun L g = Inl f)))
   \<and> (\<forall>e n. findExprRoot e = Some n \<longleftrightarrow> rooted_at n e)"
proof -
  let ?ms = "FindAllStringSubmatch tmplRE (snd (wrapPrefix tmpl))"
  have 1: "list_all2 (\<lambda>m f. \<exists>e. ParseExpr L (m ! 1) = Inr e \<and> rooted_at (name_F f) e
                    \<and> findExprRoot e = Some (name_F f)
                    \<and> typ_F f = m ! 2 \<and> fmt_F f = m ! 3 \<and> val f = m ! 1) ?ms (fields_T pt)"
    if "parseTemplate L tmpl = Inr pt" for pt
  proof -
    from that have "parseMatches L ?ms [] (snd (wrapPrefix tmpl)) = Inr (fields_T pt, fmt pt)"
      by (auto simp: parseTemplate_def Let_def split: prod.splits sum.splits)
    from parseMatches_Inr [OF this] show ?thesis
      by (simp add: findExprRoot_iff)
  qed
  have 2: "(\<exists>f. parseTemplate L tmpl = Inl f
                 \<and> ((\<exists>err. f = FatalParseExpr err) \<or> (\<exists>a. f = FatalNoRoot a)))
            \<and> (\<forall>g spec. template spec = tmpl \<longrightarrow> (\<exists>f. generate L g spec = Inl f))
            \<and> (\<forall>g spec. template spec = tmpl \<and> spec \<in> set (specs g)
                  \<longrightarrow> (\<exists>f. mainRun L g = Inl f))"
    if bad: "\<exists>m\<in>set ?ms. (\<exists>err. ParseExpr L (m ! 1) = Inl err)
          \<or> (\<exists>e. ParseExpr L (m ! 1) = Inr e \<and> (\<forall>n. \<not> rooted_at n e))"
  proof -
    from bad have "\<exists>m\<in>set ?ms. (\<exists>err. ParseExpr L (m ! 1) = Inl err)
          \<or> (\<exists>e. ParseExpr L (m ! 1) = Inr e \<and> findExprRoot e = None)"
      by (simp add: findExprRoot_None_iff)
    from parseMatches_Inl [OF this, of "[]" "snd (wrapPrefix tmpl)"]
    obtain f where f: "parseMatches L ?ms [] (snd (wrapPrefix tmpl)) = Inl f"
      "(\<exists>err. f = FatalParseExpr err) \<or> (\<exists>a. f = FatalNoRoot a)"
      by blast
    then have p: "parseTemplate L tmpl = Inl f"
      by (auto simp: parseTemplate_def Let_def split: prod.splits)
    with f(2) generate_parse_failure [of L _ f] mainRun_parse_failure [of _ _ L f]
    show ?thesis by blast
  qed
  from 1 2 findExprRoot_iff show ?thesis by blast
qed

theorem parseTemplate_field_roots_witness:
  "parseTemplate sampleLib ''failed for {{c.Field[0] MyStruct %s}}''
     = Inr \<lparr>wrap = OptWrap,
            fields_T = [\<lparr>name_F = ''c'', typ_F = ''MyStruct'', fmt_F = ''%s'', val = ''c.Field[0]''\<rparr>],
            fmt = ''failed for %s''\<rparr>
   \<and> rooted_at ''c'' (IndexExpr (SelectorExpr (Ident ''c'') ''Field'') (BasicLit ''0''))
   \<and> (\<exists>m\<in>set (FindAllStringSubmatch tmplRE (snd (wrapPrefix ''bad {{0 int %d}}''))).
          (\<exists>err. ParseExpr sampleLib (m ! 1) = Inl err)
          \<or> (\<exists>e. ParseExpr sampleLib (m ! 1) = Inr e \<and> findExprRoot e = None))
   \<and> (\<exists>f. parseTemplate sampleLib ''bad {{0 int %d}}'' = Inl f)"
proof -
  have p: "parseTemplate sampleLib ''failed for {{c.Field[0] MyStruct %s}}''
     = Inr \<lparr>wrap = OptWrap,
            fields_T = [\<lparr>name_F = ''c'', typ_F = ''MyStruct'', fmt_F = ''%s'', val = ''c.Field[0]''\<rparr>],
            fmt = ''failed for %s''\<rparr>"
    by code_simp
  have ms: "FindAllStringSubmatch tmplRE (snd (wrapPrefix ''failed for {{c.Field[0] MyStruct %s}}''))
     = [[''{{c.Field[0] MyStruct %s}}'', ''c.Field[0]'', ''MyStruct'', ''%s'']]"
    by code_simp
  have pe: "ParseExpr sampleLib ''c.Field[0]''
     = Inr (IndexExpr (SelectorExpr (Ident ''c'') ''Field'') (BasicLit ''0''))"
    by code_simp
  from parseTemplate_field_roots [of sampleLib "''failed for {{c.Field[0] MyStruct %s}}''"] p
  have "list_all2 (\<lambda>m f. \<exists>e. ParseExpr sampleLib (m ! 1) = Inr e \<and> rooted_at (name_F f) e
                    \<and> findExprRoot e = Some (name_F f)
                    \<and> typ_F f = m ! 2 \<and> fmt_F f = m ! 3 \<and> val f = m ! 1)
         (FindAllStringSubmatch tmplRE (snd (wrapPrefix ''failed for {{c.Field[0] MyStruct %s}}'')))
         [\<lparr>name_F = ''c'', typ_F = ''MyStruct'', fmt_F = ''%s'', val = ''c.Field[0]''\<rparr>]"
    by auto
  then have r: "rooted_at ''c'' (IndexExpr (SelectorExpr (Ident ''c'') ''Field'') (BasicLit ''0''))"
    unfolding ms by (simp add: pe)
  have ms2: "FindAllStringSubmatch tmplRE (snd (wrapPrefix ''bad {{0 int %d}}''))
     = [[''{{0 int %d}}'', ''0'', ''int'', ''%d'']]"
    by code_simp
  have pe2: "ParseExpr sampleLib ''0'' = Inr (BasicLit ''0'')"
    by code_simp
  have bad: "\<exists>m\<in>set (FindAllStringSubmatch tmplRE (snd (wrapPrefix ''bad {{0 int %d}}''))).
          (\<exists>err. ParseExpr sampleLib (m ! 1) = Inl err)
          \<or> (\<exists>e. ParseExpr sampleLib (m ! 1) = Inr e \<and> findExprRoot e = None)"
    unfolding ms2 by (simp add: pe2)
  then have "\<exists>m\<in>set (FindAllStringSubmatch tmplRE (snd (wrapPrefix ''bad {{0 int %d}}''))).
          (\<exists>err. ParseExpr sampleLib (m ! 1) = Inl err)
          \<or> (\<exists>e. ParseExpr sampleLib (m ! 1) = Inr e \<and> (\<forall>n. \<not> rooted_at n e))"
    by (simp add: findExprRoot_None_iff)
  with parseTemplate_field_roots [of sampleLib "''bad {{0 int %d}}''"]
  have "\<exists>f. parseTemplate sampleLib ''bad {{0 int %d}}'' = Inl f" by blast
  with p r bad show ?thesis by blast
qed

subsection \<open>The residual format string\<close>

text \<open>
  Claim C6: the residual format string is the template with every matched token replaced
  in place by its verb, every other character unchanged. The source does not meet it on
  every template: the loop replaces the first occurrence of each match's text in the
  string rewritten so far, not the match where it stands. On the template below the first
  replacement creates a copy of the second token in front of it: the copy is replaced,
  the second token is left in place and text outside the tokens is changed. The
  specification's format string for this template is \<^verbatim>\<open>{{x int %d}} %d\<close>.
\<close>

theorem formatString_first_occurrence:
  "FindAllStringSubmatch tmplRE ''{{x int {{y int %d}}}} {{x int %d}}''
     = [[''{{y int %d}}'', ''y'', ''int'', ''%d''], [''{{x int %d}}'', ''x'', ''int'', ''%d'']]
   \<and> parseTemplate sampleLib ''{{x int {{y int %d}}}} {{x int %d}}''
     = Inr \<lparr>wrap = OptWrap,
            fields_T = [\<lparr>name_F = ''y'', typ_F = ''int'', fmt_F = ''%d'', val = ''y''\<rparr>,
                        \<lparr>name_F = ''x'', typ_F = ''int'', fmt_F = ''%d'', val = ''x''\<rparr>],
            fmt = ''%d {{x int %d}}''\<rparr>
   \<and> spec_formatString tmplRE ''{{x int {{y int %d}}}} {{x int %d}}'' = ''{{x int %d}} %d''"
  by code_simp

theorem formatString_first_occurrence_witness:
  "\<exists>pt. parseTemplate sampleLib ''{{x int {{y int %d}}}} {{x int %d}}'' = Inr pt
     \<and> fmt pt \<noteq> spec_formatString tmplRE ''{{x int {{y int %d}}}} {{x int %d}}''"
  using formatString_first_occurrence by simp

text \<open>On the templates of the golden tests the two agree.\<close>

lemma formatString_golden_multiFields:
  "parseTemplate sampleLib ''failed to {{op string %s}} {{file string %q}} (code {{code int %d}})''
     = Inr \<lparr>wrap = OptWrap,
            fields_T = [\<lparr>name_F = ''op'', typ_F = ''string'', fmt_F = ''%s'', val = ''op''\<rparr>,
                        \<lparr>name_F = ''file'', typ_F = ''string'', fmt_F = ''%q'', val = ''file''\<rparr>,
                        \<lparr>name_F = ''code'', typ_F = ''int'', fmt_F = ''%d'', val = ''code''\<rparr>],
            fmt = ''failed to %s %q (code %d)''\<rparr>
   \<and> spec_formatString tmplRE ''failed to {{op string %s}} {{file string %q}} (code {{code int %d}})''
     = ''failed to %s %q (code %d)''"
  by code_simp

end
